theory Spec2Isabelle
  imports Main "HOL-Library.AList" "HOL-Library.Char_ord" "HOL-Library.List_Lexorder" "HOL-Library.Sublist"
begin

section \<open>docker-autoproxy: the reconciliation loop of autoproxy.go\<close>

text \<open>
  The development embeds the second (logrus) revision of \<^verbatim>\<open>autoproxy.go\<close>:
  \<^verbatim>\<open>configureAndReload\<close>, \<^verbatim>\<open>getExistingContainers\<close>,
  \<^verbatim>\<open>reloadNginxConfiguration\<close>, \<^verbatim>\<open>removeIfRedundant\<close>,
  \<^verbatim>\<open>removeOldFiles\<close>, \<^verbatim>\<open>writeIfChanged\<close>,
  \<^verbatim>\<open>writeNewConfigFile\<close>, \<^verbatim>\<open>writeNewFiles\<close> and
  \<^verbatim>\<open>writeNewHtpasswdFile\<close>. Go's \<^verbatim>\<open>(bool, error)\<close> results are
  triples \<open>(changed, err, world)\<close> with \<open>err :: error option\<close> (\<open>None\<close> is
  \<^verbatim>\<open>nil\<close>); the file system, the Docker daemon and the nginx command are explicit
  values. Logging has no effect on any result and is left out.
\<close>

subsection \<open>Errors\<close>

datatype error =
    ENOENT                 \<comment> \<open>no such file or directory\<close>
  | EACCES                 \<comment> \<open>permission denied\<close>
  | EISDIR                 \<comment> \<open>the path is a directory\<close>
  | ENOTEMPTY              \<comment> \<open>directory not empty\<close>
  | TemplateError string   \<comment> \<open>\<^verbatim>\<open>template.ParseFiles\<close> failed\<close>
  | DockerError string     \<comment> \<open>an error of the Docker client\<close>
  | JSONError string       \<comment> \<open>\<^verbatim>\<open>json.Unmarshal\<close> failed\<close>
  | ExecError              \<comment> \<open>the command could not be started\<close>
  | ExitError nat          \<comment> \<open>the command exited with a non-zero code\<close>
  | FailedToReload         \<comment> \<open>\<^verbatim>\<open>errors.New("Failed to reload nginx")\<close>\<close>

subsection \<open>The file system\<close>

text \<open>
  A directory holds named entries with the permissions that decide whether a system call
  succeeds. The file system addresses an entry by a pair \<open>(d, name)\<close>: the entry
  \<open>name\<close> of the directory whose path is \<open>d\<close>.
  A call fails when its directory is missing, when a permission is, or when the entry is of
  the wrong kind; a call that fails changes nothing. The \<open>trace\<close> records every
  mutating system call the program issues, in order, whether it succeeds or not.
\<close>

datatype entry =
    File (bytes: string) (readable: bool) (writable: bool)
  | SubDir (nonempty: bool)

record directory =
  entries :: "(string \<times> entry) list"
  listable :: bool      \<comment> \<open>read permission: the directory may be listed\<close>
  searchable :: bool    \<comment> \<open>search permission: entries may be reached\<close>
  modifiable :: bool    \<comment> \<open>write permission: entries may be created and removed\<close>

type_synonym path = "string \<times> string"

datatype syscall =
    SysMkdir string
  | SysWrite path string
  | SysRemove path
  | SysExec

record world =
  dirs :: "string \<Rightarrow> directory option"
  mkdirOK :: "string \<Rightarrow> bool"   \<comment> \<open>whether a missing directory can be created\<close>
  trace :: "syscall list"

text \<open>\<^verbatim>\<open>strings.Join\<close>.\<close>

fun Join :: "string list \<Rightarrow> string \<Rightarrow> string" where
  "Join [] sep = []"
| "Join [x] sep = x"
| "Join (x # y # ys) sep = x @ sep @ Join (y # ys) sep"

text \<open>
  \<^verbatim>\<open>path.Clean\<close> works on the text of a path alone. It drops empty elements (repeated
  and trailing slashes) and \<^verbatim>\<open>.\<close> elements, lets every \<^verbatim>\<open>..\<close> element cancel
  the element before it unless that is itself \<^verbatim>\<open>..\<close>, drops a \<^verbatim>\<open>..\<close> that would
  climb above the root of a rooted path, and keeps it at the front of a path that is not
  rooted; the empty result is \<^verbatim>\<open>.\<close>. \<open>splitOn\<close> cuts a string at a separator,
  \<open>elements\<close> are the elements that \<^verbatim>\<open>Clean\<close> looks at, and \<open>backtrack\<close> is its
  loop, with the elements written so far as accumulator.
\<close>

fun splitOn :: "char \<Rightarrow> string \<Rightarrow> string list" where
  "splitOn c [] = [[]]"
| "splitOn c (x # xs) =
     (if x = c then [] # splitOn c xs
      else (case splitOn c xs of [] \<Rightarrow> [[x]] | e # es \<Rightarrow> (x # e) # es))"

definition elements :: "string \<Rightarrow> string list" where
  "elements p = filter (\<lambda>e. e \<noteq> [] \<and> e \<noteq> ''.'') (splitOn CHR ''/'' p)"

fun backtrack :: "bool \<Rightarrow> string list \<Rightarrow> string list \<Rightarrow> string list" where
  "backtrack rooted out [] = out"
| "backtrack rooted out (e # es) =
     (if e = ''..''
      then (if out \<noteq> [] \<and> last out \<noteq> ''..'' then backtrack rooted (butlast out) es
            else if rooted then backtrack rooted out es
            else backtrack rooted (out @ [e]) es)
      else backtrack rooted (out @ [e]) es)"

definition Clean :: "string \<Rightarrow> string" where
  "Clean p =
     (let rooted = (p \<noteq> [] \<and> hd p = CHR ''/'');
          out = backtrack rooted [] (elements p)
      in if out = [] then (if rooted then ''/'' else ''.'')
         else (if rooted then ''/'' else []) @ Join out ''/'')"

text \<open>
  \<^verbatim>\<open>path.Join\<close> of two elements: empty elements are ignored, the others are joined
  with a slash and the result is cleaned; the join of two empty elements is the empty
  string.
\<close>

definition JoinPath :: "string \<Rightarrow> string \<Rightarrow> string" where
  "JoinPath a b =
     (if a = [] \<and> b = [] then []
      else if a = [] then Clean b
      else Clean (a @ ''/'' @ b))"

text \<open>
  The entry that the text of a path denotes: its last element (\<^verbatim>\<open>path.Base\<close> of a
  clean path) in the directory that the text before it names (\<^verbatim>\<open>path.Dir\<close>).
  \<open>pathJoin d name\<close> is the entry that the program reaches when it hands
  \<^verbatim>\<open>path.Join(d, name)\<close> to a system call. It is the entry \<open>name\<close> of \<open>d\<close> when
  \<open>name\<close> is the name of a file; otherwise it may be another entry of \<open>d\<close>
  (\<^verbatim>\<open>./b\<close>), an entry of another directory (\<^verbatim>\<open>../conf.d/x\<close>, \<^verbatim>\<open>web/db\<close>), or
  \<open>d\<close> itself (the empty name).
\<close>

definition Base :: "string \<Rightarrow> string" where
  "Base p = rev (takeWhile (\<lambda>c. c \<noteq> CHR ''/'') (rev p))"

definition Dir :: "string \<Rightarrow> string" where
  "Dir p =
     (let d = rev (dropWhile (\<lambda>c. c \<noteq> CHR ''/'') (rev p))
      in if d = [] then ''.'' else if d = ''/'' then ''/'' else butlast d)"

definition located :: "string \<Rightarrow> path" where
  "located p = (Dir p, Base p)"

definition pathJoin :: "string \<Rightarrow> string \<Rightarrow> path" where
  "pathJoin d name = located (JoinPath d name)"

definition entryAt :: "world \<Rightarrow> path \<Rightarrow> entry option" where
  "entryAt w p = (case dirs w (fst p) of None \<Rightarrow> None | Some D \<Rightarrow> map_of (entries D) (snd p))"

definition setEntries :: "string \<Rightarrow> directory \<Rightarrow> (string \<times> entry) list \<Rightarrow> world \<Rightarrow> world" where
  "setEntries d D es w = w\<lparr>dirs := (dirs w)(d \<mapsto> D\<lparr>entries := es\<rparr>)\<rparr>"

definition logCall :: "syscall \<Rightarrow> world \<Rightarrow> world" where
  "logCall c w = w\<lparr>trace := trace w @ [c]\<rparr>"

text \<open>\<^verbatim>\<open>os.Stat\<close>: only the error is used by the program.\<close>

definition osStat :: "world \<Rightarrow> path \<Rightarrow> error option" where
  "osStat w p =
     (case dirs w (fst p) of
        None \<Rightarrow> Some ENOENT
      | Some D \<Rightarrow>
          if \<not> searchable D then Some EACCES
          else (case map_of (entries D) (snd p) of None \<Rightarrow> Some ENOENT | Some e \<Rightarrow> None))"

definition IsNotExist :: "error option \<Rightarrow> bool" where
  "IsNotExist err = (err = Some ENOENT)"

definition ReadFile :: "world \<Rightarrow> path \<Rightarrow> error + string" where
  "ReadFile w p =
     (case dirs w (fst p) of
        None \<Rightarrow> Inl ENOENT
      | Some D \<Rightarrow>
          if \<not> searchable D then Inl EACCES
          else (case map_of (entries D) (snd p) of
                  None \<Rightarrow> Inl ENOENT
                | Some (File c r wr) \<Rightarrow> if r then Inr c else Inl EACCES
                | Some (SubDir ne) \<Rightarrow> Inl EISDIR))"

text \<open>
  \<^verbatim>\<open>ioutil.WriteFile(path, content, 0644)\<close>: creates the file (readable and writable by
  its owner) or truncates and rewrites an existing one, whose mode is kept.
\<close>

definition WriteFile :: "path \<Rightarrow> string \<Rightarrow> world \<Rightarrow> error option \<times> world" where
  "WriteFile p c w0 =
     (let w = logCall (SysWrite p c) w0 in
      case dirs w (fst p) of
        None \<Rightarrow> (Some ENOENT, w)
      | Some D \<Rightarrow>
          if \<not> searchable D then (Some EACCES, w)
          else (case map_of (entries D) (snd p) of
                  None \<Rightarrow>
                    if modifiable D
                    then (None, setEntries (fst p) D (entries D @ [(snd p, File c True True)]) w)
                    else (Some EACCES, w)
                | Some (File old r wr) \<Rightarrow>
                    if wr
                    then (None, setEntries (fst p) D (AList.update (snd p) (File c r wr) (entries D)) w)
                    else (Some EACCES, w)
                | Some (SubDir ne) \<Rightarrow> (Some EISDIR, w)))"

text \<open>\<^verbatim>\<open>os.Remove\<close>: unlinks a file or removes an empty directory.\<close>

definition osRemove :: "path \<Rightarrow> world \<Rightarrow> error option \<times> world" where
  "osRemove p w0 =
     (let w = logCall (SysRemove p) w0 in
      case dirs w (fst p) of
        None \<Rightarrow> (Some ENOENT, w)
      | Some D \<Rightarrow>
          if \<not> searchable D then (Some EACCES, w)
          else (case map_of (entries D) (snd p) of
                  None \<Rightarrow> (Some ENOENT, w)
                | Some e \<Rightarrow>
                    if \<not> modifiable D then (Some EACCES, w)
                    else if e = SubDir True then (Some ENOTEMPTY, w)
                    else (None, setEntries (fst p) D (AList.delete (snd p) (entries D)) w)))"

text \<open>
  \<^verbatim>\<open>ioutil.ReadDir\<close>: the entries sorted by file name (bytewise, which is the
  lexicographic order on \<open>string\<close>); only \<^verbatim>\<open>Name()\<close> of each is used. Listing
  needs read permission, and search permission to stat the entries found.
\<close>

definition ReadDir :: "world \<Rightarrow> string \<Rightarrow> error + string list" where
  "ReadDir w d =
     (case dirs w d of
        None \<Rightarrow> Inl ENOENT
      | Some D \<Rightarrow>
          if \<not> listable D then Inl EACCES
          else if \<not> searchable D \<and> entries D \<noteq> [] then Inl EACCES
          else Inr (sort (map fst (entries D))))"

text \<open>
  \<^verbatim>\<open>os.MkdirAll(d, 0755)\<close>: nothing to do when the directory exists; otherwise it is
  created empty with mode 0755, when the world allows that.
\<close>

definition emptyDir :: directory where
  "emptyDir = \<lparr>entries = [], listable = True, searchable = True, modifiable = True\<rparr>"

definition MkdirAll :: "string \<Rightarrow> world \<Rightarrow> error option \<times> world" where
  "MkdirAll d w =
     (case dirs w d of
        Some D \<Rightarrow> (None, w)
      | None \<Rightarrow>
          if mkdirOK w d
          then (None, (logCall (SysMkdir d) w)\<lparr>dirs := (dirs w)(d \<mapsto> emptyDir)\<rparr>)
          else (Some EACCES, logCall (SysMkdir d) w))"

subsection \<open>The nginx command\<close>

text \<open>
  What running \<^verbatim>\<open>nginx -s reload\<close> does is an input: it cannot be started, or it exits
  with a code and its combined output. \<^verbatim>\<open>CombinedOutput\<close> returns a non-nil error
  exactly when the command did not start or its exit code is not zero.
\<close>

datatype process = NotStarted | Exited (exitCode: nat) (combined: string)

definition CombinedOutput :: "process \<Rightarrow> world \<Rightarrow> (string \<times> error option) \<times> world" where
  "CombinedOutput run w =
     (case run of
        NotStarted \<Rightarrow> (([], Some ExecError), logCall SysExec w)
      | Exited c out \<Rightarrow> ((out, if c = 0 then None else Some (ExitError c)), logCall SysExec w))"

text \<open>\<^verbatim>\<open>strings.Contains\<close>.\<close>

fun Contains :: "string \<Rightarrow> string \<Rightarrow> bool" where
  "Contains [] substr = (substr = [])"
| "Contains (c # s) substr = (prefix substr (c # s) \<or> Contains s substr)"

definition reloadNginxConfiguration :: "process \<Rightarrow> world \<Rightarrow> error option \<times> world" where
  "reloadNginxConfiguration run w =
     (case CombinedOutput run w of
        ((output, Some e), w') \<Rightarrow> (Some e, w')
      | ((output, None), w') \<Rightarrow>
          if Contains output ''fail'' then (Some FailedToReload, w') else (None, w'))"

subsection \<open>Endpoints and the two writers\<close>

record containerConfig =
  Name :: string
  VHost :: string
  ContainerIP :: string
  ContainerPort :: string
  SSLCertName :: string
  HtpasswdEntries :: "string list"

type_synonym cfWriter = "string \<Rightarrow> containerConfig \<Rightarrow> world \<Rightarrow> bool \<times> error option \<times> world"

definition nginxConfigDir :: string where
  "nginxConfigDir = ''/etc/nginx/conf.d''"

definition nginxHtpasswdDir :: string where
  "nginxHtpasswdDir = ''/etc/nginx/htpasswd.d''"

text \<open>
  \<^verbatim>\<open>writeIfChanged\<close>: \<open>fileExists\<close> is set when \<^verbatim>\<open>os.Stat\<close> returns no error (any
  error counts as "does not exist"), \<open>contentChanged\<close> when the bytes read differ; a read
  error returns early. The write returns \<open>true\<close> together with the error of
  \<^verbatim>\<open>ioutil.WriteFile\<close>.
\<close>

definition writeIfChanged :: "path \<Rightarrow> string \<Rightarrow> world \<Rightarrow> bool \<times> error option \<times> world" where
  "writeIfChanged p content w =
     (case (if osStat w p = None
            then (case ReadFile w p of
                    Inl e \<Rightarrow> Inl e
                  | Inr readContent \<Rightarrow> Inr (True, content \<noteq> readContent))
            else Inr (False, False)) of
        Inl e \<Rightarrow> (False, Some e, w)
      | Inr (fileExists, contentChanged) \<Rightarrow>
          if \<not> fileExists \<or> contentChanged
          then (case WriteFile p content w of (e, w') \<Rightarrow> (True, e, w'))
          else (False, None, w))"

text \<open>
  The template engine is outside the repository. \<^verbatim>\<open>template.ParseFiles("autoproxy.tmpl")\<close>
  gives an error or a template; executing a template on an endpoint gives the rendered
  bytes, or \<open>None\<close> when \<^verbatim>\<open>Execute\<close> returns an error. The template file is read
  anew for every endpoint; it is taken to stay the same, so the result of parsing it is a
  parameter.
\<close>

type_synonym template = "containerConfig \<Rightarrow> string option"

definition writeNewConfigFile :: "(error + template) \<Rightarrow> cfWriter" where
  "writeNewConfigFile parsed d cc w =
     (case parsed of
        Inl e \<Rightarrow> (False, Some e, w)
      | Inr nginxTemplate \<Rightarrow>
          (case nginxTemplate cc of
             None \<Rightarrow> (False, None, w)
           | Some b \<Rightarrow> writeIfChanged (pathJoin d (Name cc)) b w))"

definition writeNewHtpasswdFile :: cfWriter where
  "writeNewHtpasswdFile d cc w =
     (if length (HtpasswdEntries cc) = 0 then (False, None, w)
      else writeIfChanged (pathJoin d (Name cc)) (Join (HtpasswdEntries cc) [CHR 0x0A]) w)"

subsection \<open>Writing and removing files\<close>

text \<open>The loop of \<^verbatim>\<open>writeNewFiles\<close>, with \<open>wroteFiles\<close> as accumulator.\<close>

fun writeEach :: "cfWriter \<Rightarrow> string \<Rightarrow> containerConfig list \<Rightarrow> bool \<Rightarrow> world \<Rightarrow> bool \<times> error option \<times> world" where
  "writeEach f d [] wroteFiles w = (wroteFiles, None, w)"
| "writeEach f d (cc # ccs) wroteFiles w =
     (case f d cc w of
        (wroteFile, Some e, w') \<Rightarrow> (False, Some e, w')
      | (wroteFile, None, w') \<Rightarrow> writeEach f d ccs (if wroteFile then True else wroteFiles) w')"

definition writeNewFiles :: "cfWriter \<Rightarrow> string \<Rightarrow> containerConfig list \<Rightarrow> world \<Rightarrow> bool \<times> error option \<times> world" where
  "writeNewFiles f d ccs w =
     (case MkdirAll d w of
        (Some e, w') \<Rightarrow> (False, Some e, w')
      | (None, w') \<Rightarrow> writeEach f d ccs False w')"

text \<open>
  \<^verbatim>\<open>removeIfRedundant\<close>: the loop over the running containers returns at the first
  whose name is the file's; after the loop the file is removed.
\<close>

fun removeIfRedundant :: "string \<Rightarrow> string \<Rightarrow> containerConfig list \<Rightarrow> world \<Rightarrow> bool \<times> error option \<times> world" where
  "removeIfRedundant directory fname [] w =
     (case osRemove (pathJoin directory fname) w of (e, w') \<Rightarrow> (True, e, w'))"
| "removeIfRedundant directory fname (rc # rcs) w =
     (if fname = Name rc then (False, None, w) else removeIfRedundant directory fname rcs w)"

text \<open>The loop of \<^verbatim>\<open>removeOldFiles\<close>, with \<open>removedFiles\<close> as accumulator.\<close>

fun removeEach :: "string \<Rightarrow> string list \<Rightarrow> containerConfig list \<Rightarrow> bool \<Rightarrow> world \<Rightarrow> bool \<times> error option \<times> world" where
  "removeEach directory [] ccs removedFiles w = (removedFiles, None, w)"
| "removeEach directory (f # fs) ccs removedFiles w =
     (case removeIfRedundant directory f ccs w of
        (removedFile, Some e, w') \<Rightarrow> (False, Some e, w')
      | (removedFile, None, w') \<Rightarrow>
          removeEach directory fs ccs (if removedFile then True else removedFiles) w')"

definition removeOldFiles :: "string \<Rightarrow> containerConfig list \<Rightarrow> world \<Rightarrow> bool \<times> error option \<times> world" where
  "removeOldFiles directory ccs w =
     (case ReadDir w directory of
        Inl e \<Rightarrow> (False, Some e, w)
      | Inr dirContents \<Rightarrow> removeEach directory dirContents ccs False w)"

subsection \<open>One cycle\<close>

definition configureAndReload :: "(error + template) \<Rightarrow> process \<Rightarrow> containerConfig list \<Rightarrow> world \<Rightarrow> error option \<times> world" where
  "configureAndReload parsed run ccs w =
     (case writeNewFiles (writeNewConfigFile parsed) nginxConfigDir ccs w of
        (changed1, Some e, w1) \<Rightarrow> (Some e, w1)
      | (changed1, None, w1) \<Rightarrow>
     (case writeNewFiles writeNewHtpasswdFile nginxHtpasswdDir ccs w1 of
        (changed2, Some e, w2) \<Rightarrow> (Some e, w2)
      | (changed2, None, w2) \<Rightarrow>
     (case removeOldFiles nginxConfigDir ccs w2 of
        (changed3, Some e, w3) \<Rightarrow> (Some e, w3)
      | (changed3, None, w3) \<Rightarrow>
     (case removeOldFiles nginxHtpasswdDir ccs w3 of
        (changed4, Some e, w4) \<Rightarrow> (Some e, w4)
      | (changed4, None, w4) \<Rightarrow>
          (let reloadRequired = (changed1 \<or> changed2 \<or> changed3 \<or> changed4) in
           if reloadRequired then reloadNginxConfiguration run w4 else (None, w4))))))"

subsection \<open>The inventory\<close>

text \<open>
  The Docker client (\<^verbatim>\<open>go-dockerclient\<close>) is outside the repository. A listed container
  has an id and names; an inspected one has its environment as the map that
  \<^verbatim>\<open>env.Map()\<close> returns, the keys of \<^verbatim>\<open>NetworkSettings.Ports\<close> (a Go map, so each
  key occurs once) and its address. \<^verbatim>\<open>json.Unmarshal\<close> into the string slice is an
  input too: it returns an error or none, and what it has left in the slice.
\<close>

record apiContainer =
  ID :: string
  Names :: "string list"

record container =
  Env :: "string \<Rightarrow> string option"
  Ports :: "string list"
  IPAddress :: string

record dockerClient =
  ListContainers :: "error + apiContainer list"
  InspectContainer :: "string \<Rightarrow> error + container"

type_synonym unmarshal = "string \<Rightarrow> error option \<times> string list"

text \<open>A call either returns or panics (an index out of range).\<close>

datatype 'a outcome = Panic | Return 'a

text \<open>\<^verbatim>\<open>strings.TrimLeft\<close>, \<^verbatim>\<open>docker.Port.Port\<close>, \<^verbatim>\<open>env.Get\<close>, \<^verbatim>\<open>env.GetJSON\<close>.\<close>

definition TrimLeft :: "string \<Rightarrow> string \<Rightarrow> string" where
  "TrimLeft s cutset = dropWhile (\<lambda>c. c \<in> set cutset) s"

definition Port :: "string \<Rightarrow> string" where
  "Port k = takeWhile (\<lambda>c. c \<noteq> CHR ''/'') k"

definition Get :: "(string \<Rightarrow> string option) \<Rightarrow> string \<Rightarrow> string" where
  "Get env key = (case env key of None \<Rightarrow> [] | Some v \<Rightarrow> v)"

definition GetJSON :: "unmarshal \<Rightarrow> (string \<Rightarrow> string option) \<Rightarrow> string \<Rightarrow> error option \<times> string list" where
  "GetJSON um env key = (let sval = Get env key in if sval = [] then (None, []) else um sval)"

definition sslDir :: string where
  "sslDir = ''/etc/nginx/ssl.d''"

definition certPath :: "string \<Rightarrow> path" where
  "certPath sslCertName = (sslDir, sslCertName @ ''.crt'')"

definition keyPath :: "string \<Rightarrow> path" where
  "keyPath sslCertName = (sslDir, sslCertName @ ''.key'')"

text \<open>
  The body of the loop of \<^verbatim>\<open>getExistingContainers\<close> for one listed container:
  \<open>Return None\<close> is \<^verbatim>\<open>continue\<close>, \<open>Return (Some cc)\<close> appends \<open>cc\<close>. After a
  successful inspection every path evaluates \<^verbatim>\<open>apiContainer.Names[0]\<close> (in a log field
  or in \<open>Name\<close>), which panics on an empty slice; nothing but logging and read-only
  calls comes before it. The port is the value of \<^verbatim>\<open>VIRTUAL_PORT\<close> when the variable is
  set; otherwise the loop over the port map assigns \<open>vPort\<close> for each key.
\<close>

definition toEndpoint :: "dockerClient \<Rightarrow> unmarshal \<Rightarrow> world \<Rightarrow> apiContainer \<Rightarrow> containerConfig option outcome" where
  "toEndpoint client um w apiContainer =
     (case InspectContainer client (ID apiContainer) of
        Inl e \<Rightarrow> Return None
      | Inr container \<Rightarrow>
     (case Names apiContainer of
        [] \<Rightarrow> Panic
      | name0 # others \<Rightarrow>
     (case Env container ''VIRTUAL_HOST'' of
        None \<Rightarrow> Return None
      | Some vHost \<Rightarrow>
     (case (case Env container ''VIRTUAL_PORT'' of
              Some vPort \<Rightarrow> Some vPort
            | None \<Rightarrow>
                if length (Ports container) > 1 then None
                else if length (Ports container) = 0 then None
                else Some (foldl (\<lambda>vPort k. Port k) [] (Ports container))) of
        None \<Rightarrow> Return None
      | Some vPort \<Rightarrow>
          (let sslCertName = Get (Env container) ''SSL_CERT_NAME'';
               sslCertName = (if length sslCertName > 0 \<and> IsNotExist (osStat w (certPath sslCertName))
                              then [] else sslCertName);
               sslCertName = (if length sslCertName > 0 \<and> IsNotExist (osStat w (keyPath sslCertName))
                              then [] else sslCertName);
               htpasswdEntries = snd (GetJSON um (Env container) ''HTPASSWD'')
           in Return (Some \<lparr>Name = TrimLeft name0 ''/'', VHost = vHost,
                              ContainerIP = IPAddress container, ContainerPort = vPort,
                              SSLCertName = sslCertName, HtpasswdEntries = htpasswdEntries\<rparr>))))))"

fun inspectEach :: "dockerClient \<Rightarrow> unmarshal \<Rightarrow> world \<Rightarrow> apiContainer list \<Rightarrow> containerConfig list \<Rightarrow> containerConfig list outcome" where
  "inspectEach client um w [] containers = Return containers"
| "inspectEach client um w (apiContainer # rest) containers =
     (case toEndpoint client um w apiContainer of
        Panic \<Rightarrow> Panic
      | Return None \<Rightarrow> inspectEach client um w rest containers
      | Return (Some cc) \<Rightarrow> inspectEach client um w rest (containers @ [cc]))"

definition getExistingContainers :: "dockerClient \<Rightarrow> unmarshal \<Rightarrow> world \<Rightarrow> (error + containerConfig list) outcome" where
  "getExistingContainers client um w =
     (case ListContainers client of
        Inl e \<Rightarrow> Return (Inl e)
      | Inr apiContainers \<Rightarrow>
          (case inspectEach client um w apiContainers [] of
             Panic \<Rightarrow> Panic
           | Return containers \<Rightarrow> Return (Inr containers)))"

section \<open>Observations used in the statements and proofs\<close>

text \<open>The number of times the reload command has been run.\<close>

definition reloads :: "world \<Rightarrow> nat" where
  "reloads w = length (filter (\<lambda>c. c = SysExec) (trace w))"

text \<open>The names present in a directory.\<close>

definition dirNames :: "world \<Rightarrow> string \<Rightarrow> string set" where
  "dirNames w d = (case dirs w d of None \<Rightarrow> {} | Some D \<Rightarrow> set (map fst (entries D)))"

definition dirPerms :: "world \<Rightarrow> string \<Rightarrow> (bool \<times> bool \<times> bool) option" where
  "dirPerms w d = map_option (\<lambda>D. (listable D, searchable D, modifiable D)) (dirs w d)"

text \<open>
  The name of a file: one path element that is neither \<^verbatim>\<open>.\<close> nor \<^verbatim>\<open>..\<close>. The
  names that a directory listing returns are of this kind, and so are the names of
  containers. \<open>fileNames ccs\<close> says that the names of the endpoints \<open>ccs\<close> are names of
  files, and \<open>listing w d\<close> that the entries of the directory \<open>d\<close> have the names of
  files (a directory that does not exist has no entries). \<open>targetDir\<close> are the two
  directories that a cycle maintains.
\<close>

definition fileName :: "string \<Rightarrow> bool" where
  "fileName n \<longleftrightarrow> n \<noteq> [] \<and> n \<noteq> ''.'' \<and> n \<noteq> ''..'' \<and> CHR ''/'' \<notin> set n"

definition fileNames :: "containerConfig list \<Rightarrow> bool" where
  "fileNames ccs \<longleftrightarrow> list_all (\<lambda>cc. fileName (Name cc)) ccs"

definition listing :: "world \<Rightarrow> string \<Rightarrow> bool" where
  "listing w d \<longleftrightarrow>
     (case dirs w d of None \<Rightarrow> True | Some D \<Rightarrow> list_all (\<lambda>e. fileName (fst e)) (entries D))"

definition targetDir :: "string \<Rightarrow> bool" where
  "targetDir d \<longleftrightarrow> d = nginxConfigDir \<or> d = nginxHtpasswdDir"

text \<open>The entries that the program reaches from a directory with a set of names.\<close>

definition targets :: "string \<Rightarrow> string set \<Rightarrow> path set" where
  "targets d S = pathJoin d ` S"

text \<open>
  \<open>frame w w' P\<close>: from \<open>w\<close> to \<open>w'\<close> only entries at the paths in \<open>P\<close> may have
  changed; permissions of existing directories, what can be created and the number of
  reloads are as before.
\<close>

definition frame :: "world \<Rightarrow> world \<Rightarrow> path set \<Rightarrow> bool" where
  "frame w w' P \<longleftrightarrow>
     mkdirOK w' = mkdirOK w \<and> reloads w' = reloads w \<and>
     (\<forall>d. dirs w d \<noteq> None \<longrightarrow> dirPerms w' d = dirPerms w d) \<and>
     (\<forall>q. q \<notin> P \<longrightarrow> entryAt w' q = entryAt w q)"

text \<open>\<open>holds w p b\<close>: the path can be stat'ed and read, and reads as \<open>b\<close>.\<close>

definition holds :: "world \<Rightarrow> path \<Rightarrow> string \<Rightarrow> bool" where
  "holds w p b \<longleftrightarrow> osStat w p = None \<and> ReadFile w p = Inr b"

text \<open>
  Both writers render an endpoint to bytes, or to nothing, and hand the bytes to
  \<^verbatim>\<open>writeIfChanged\<close>: \<open>artifact g\<close> is that writer for a rendering \<open>g\<close>, and
  \<open>htpasswdContent\<close> is the rendering of \<^verbatim>\<open>writeNewHtpasswdFile\<close>. \<open>produced g ccs\<close>
  are the names of the endpoints that \<open>g\<close> renders, and \<open>rendered parsed ccs\<close> those
  that the configuration template renders, none when the template does not parse.
\<close>

definition artifact :: "template \<Rightarrow> cfWriter" where
  "artifact g d cc w =
     (case g cc of None \<Rightarrow> (False, None, w) | Some b \<Rightarrow> writeIfChanged (pathJoin d (Name cc)) b w)"

definition htpasswdContent :: template where
  "htpasswdContent cc =
     (if length (HtpasswdEntries cc) = 0 then None else Some (Join (HtpasswdEntries cc) [CHR 0x0A]))"

definition produced :: "template \<Rightarrow> containerConfig list \<Rightarrow> string set" where
  "produced g ccs = set (map Name (filter (\<lambda>cc. g cc \<noteq> None) ccs))"

definition rendered :: "(error + template) \<Rightarrow> containerConfig list \<Rightarrow> string set" where
  "rendered parsed ccs = (case parsed of Inl e \<Rightarrow> {} | Inr t \<Rightarrow> produced t ccs)"

definition quiet :: "template \<Rightarrow> string \<Rightarrow> containerConfig \<Rightarrow> world \<Rightarrow> bool" where
  "quiet g d cc w \<longleftrightarrow> (case g cc of None \<Rightarrow> True | Some b \<Rightarrow> holds w (d, Name cc) b)"

definition cleanDir :: "string \<Rightarrow> containerConfig list \<Rightarrow> world \<Rightarrow> bool" where
  "cleanDir d ccs w \<longleftrightarrow> (\<exists>fs. ReadDir w d = Inr fs \<and> set fs \<subseteq> Name ` set ccs)"

text \<open>The endpoint a listed container contributes, if any.\<close>

definition endpointOf :: "dockerClient \<Rightarrow> unmarshal \<Rightarrow> world \<Rightarrow> apiContainer \<Rightarrow> containerConfig option" where
  "endpointOf client um w ac = (case toEndpoint client um w ac of Panic \<Rightarrow> None | Return r \<Rightarrow> r)"

definition resolvePort :: "container \<Rightarrow> string option" where
  "resolvePort c =
     (case Env c ''VIRTUAL_PORT'' of
        Some vPort \<Rightarrow> Some vPort
      | None \<Rightarrow> (case Ports c of [k] \<Rightarrow> Some (Port k) | _ \<Rightarrow> None))"

definition checkedCert :: "world \<Rightarrow> string \<Rightarrow> string" where
  "checkedCert w n =
     (if n \<noteq> [] \<and> (IsNotExist (osStat w (certPath n)) \<or> IsNotExist (osStat w (keyPath n)))
      then [] else n)"

section \<open>Example worlds\<close>

definition world0 :: world where
  "world0 = \<lparr>dirs = (\<lambda>d. None), mkdirOK = (\<lambda>d. True), trace = []\<rparr>"

definition endpoint :: "string \<Rightarrow> string \<Rightarrow> string list \<Rightarrow> containerConfig" where
  "endpoint n h es =
     \<lparr>Name = n, VHost = h, ContainerIP = ''172.17.0.2'', ContainerPort = ''8080'',
      SSLCertName = [], HtpasswdEntries = es\<rparr>"

text \<open>A template that renders the host and backend, and fails on an empty host.\<close>

definition demoTemplate :: template where
  "demoTemplate cc =
     (if VHost cc = [] then None
      else Some (''server '' @ VHost cc @ '' '' @ ContainerIP cc @ '':'' @ ContainerPort cc))"

definition plainDir :: "(string \<times> entry) list \<Rightarrow> directory" where
  "plainDir es = \<lparr>entries = es, listable = True, searchable = True, modifiable = True\<rparr>"

text \<open>
  \<open>worldA\<close>: a credentials directory with a file \<open>x\<close>, an unreadable file \<open>b\<close> and a
  non-empty subdirectory \<open>y\<close>; nothing can be created.
\<close>

definition dirA :: directory where
  "dirA = plainDir [(''x'', File ''1'' True True), (''b'', File ''old'' False True),
                    (''y'', SubDir True)]"

definition worldA :: world where
  "worldA = \<lparr>dirs = [nginxHtpasswdDir \<mapsto> dirA], mkdirOK = (\<lambda>d. False), trace = []\<rparr>"

text \<open>
  \<open>worldB\<close>: the configuration directory holds \<open>a\<close>, \<open>b\<close> (already what the template
  renders for \<open>b\<close>) and \<open>c\<close>; there is no credentials directory yet. The endpoints are
  \<open>b\<close>, without credentials, and \<open>d\<close>, with one entry.
\<close>

definition ccsB :: "containerConfig list" where
  "ccsB = [endpoint ''b'' ''b.com'' [], endpoint ''d'' ''d.com'' [''u:h'']]"

definition worldB :: world where
  "worldB =
     \<lparr>dirs = [nginxConfigDir \<mapsto> plainDir [(''a'', File ''stale'' True True),
                 (''b'', File ''server b.com 172.17.0.2:8080'' True True),
                 (''c'', File ''x'' True True)]],
      mkdirOK = (\<lambda>d. True), trace = []\<rparr>"

text \<open>The worlds that the four steps of one cycle lead through from \<open>worldB\<close>.\<close>

definition worldB1 :: world where
  "worldB1 =
     \<lparr>dirs = [nginxConfigDir \<mapsto> plainDir [(''a'', File ''stale'' True True),
                 (''b'', File ''server b.com 172.17.0.2:8080'' True True),
                 (''c'', File ''x'' True True),
                 (''d'', File ''server d.com 172.17.0.2:8080'' True True)]],
      mkdirOK = (\<lambda>d. True),
      trace = [SysWrite (nginxConfigDir, ''d'') ''server d.com 172.17.0.2:8080'']\<rparr>"

definition worldB2 :: world where
  "worldB2 =
     \<lparr>dirs = [nginxConfigDir \<mapsto> plainDir [(''a'', File ''stale'' True True),
                 (''b'', File ''server b.com 172.17.0.2:8080'' True True),
                 (''c'', File ''x'' True True),
                 (''d'', File ''server d.com 172.17.0.2:8080'' True True)],
              nginxHtpasswdDir \<mapsto> plainDir [(''d'', File ''u:h'' True True)]],
      mkdirOK = (\<lambda>d. True),
      trace = [SysWrite (nginxConfigDir, ''d'') ''server d.com 172.17.0.2:8080'',
               SysMkdir nginxHtpasswdDir, SysWrite (nginxHtpasswdDir, ''d'') ''u:h'']\<rparr>"

definition worldB3 :: world where
  "worldB3 =
     \<lparr>dirs = [nginxHtpasswdDir \<mapsto> plainDir [(''d'', File ''u:h'' True True)],
              nginxConfigDir \<mapsto> plainDir
                [(''b'', File ''server b.com 172.17.0.2:8080'' True True),
                 (''d'', File ''server d.com 172.17.0.2:8080'' True True)]],
      mkdirOK = (\<lambda>d. True),
      trace = [SysWrite (nginxConfigDir, ''d'') ''server d.com 172.17.0.2:8080'',
               SysMkdir nginxHtpasswdDir, SysWrite (nginxHtpasswdDir, ''d'') ''u:h'',
               SysRemove (nginxConfigDir, ''a''), SysRemove (nginxConfigDir, ''c'')]\<rparr>"

text \<open>
  \<open>worldB\<close> after writing and cleaning the configuration directory alone.
\<close>

definition worldB1r :: world where
  "worldB1r =
     \<lparr>dirs = [nginxConfigDir \<mapsto> plainDir
                [(''b'', File ''server b.com 172.17.0.2:8080'' True True),
                 (''d'', File ''server d.com 172.17.0.2:8080'' True True)]],
      mkdirOK = (\<lambda>d. True),
      trace = [SysWrite (nginxConfigDir, ''d'') ''server d.com 172.17.0.2:8080'',
               SysRemove (nginxConfigDir, ''a''), SysRemove (nginxConfigDir, ''c'')]\<rparr>"

text \<open>
  \<open>worldC\<close>: no directory exists, and only the configuration directory can be created.
\<close>

definition worldC :: world where
  "worldC = \<lparr>dirs = (\<lambda>d. None), mkdirOK = (\<lambda>d. d = nginxConfigDir), trace = []\<rparr>"

text \<open>
  \<open>worldC\<close> after the configuration file of an endpoint \<open>a\<close> is written, and after
  the attempt to create the credentials directory.
\<close>

definition worldC1 :: world where
  "worldC1 =
     \<lparr>dirs = [nginxConfigDir \<mapsto> plainDir [(''a'', File ''server a.com 172.17.0.2:8080'' True True)]],
      mkdirOK = (\<lambda>d. d = nginxConfigDir),
      trace = [SysMkdir nginxConfigDir,
               SysWrite (nginxConfigDir, ''a'') ''server a.com 172.17.0.2:8080'']\<rparr>"

definition worldC2 :: world where
  "worldC2 =
     \<lparr>dirs = [nginxConfigDir \<mapsto> plainDir [(''a'', File ''server a.com 172.17.0.2:8080'' True True)]],
      mkdirOK = (\<lambda>d. d = nginxConfigDir),
      trace = [SysMkdir nginxConfigDir,
               SysWrite (nginxConfigDir, ''a'') ''server a.com 172.17.0.2:8080'',
               SysMkdir nginxHtpasswdDir]\<rparr>"

text \<open>
  \<open>worldH\<close>: the credentials directory holds \<open>a\<close>, \<open>b\<close> and \<open>c\<close>; the endpoints \<open>b\<close>
  and \<open>d\<close> have no credentials.
\<close>

definition ccsH :: "containerConfig list" where
  "ccsH = [endpoint ''b'' ''b.com'' [], endpoint ''d'' ''d.com'' []]"

definition worldH :: world where
  "worldH =
     \<lparr>dirs = [nginxHtpasswdDir \<mapsto> plainDir [(''a'', File ''x:1'' True True),
                 (''b'', File ''u:old'' True True), (''c'', File ''y:2'' True True)]],
      mkdirOK = (\<lambda>d. True), trace = []\<rparr>"

text \<open>
  \<open>worldE\<close>: the credentials directory holds \<open>y\<close> and \<open>z\<close> and cannot be modified.
\<close>

definition worldE :: world where
  "worldE =
     \<lparr>dirs = [nginxHtpasswdDir \<mapsto>
                \<lparr>entries = [(''y'', File ''p'' True True), (''z'', File ''q'' True True)],
                 listable = True, searchable = True, modifiable = False\<rparr>],
      mkdirOK = (\<lambda>d. True), trace = []\<rparr>"

text \<open>
  A daemon with four containers: \<open>web1\<close> exposes one port; \<open>web2\<close> exposes two and sets
  \<^verbatim>\<open>VIRTUAL_PORT\<close>; \<open>web3\<close> exposes two and sets none; \<open>gone\<close> cannot be inspected.
  \<open>web1\<close> names a certificate \<open>foo\<close>, of which \<open>worldS\<close> has the \<^verbatim>\<open>.crt\<close> file only.
\<close>

definition acWeb1 :: apiContainer where
  "acWeb1 = \<lparr>ID = ''1'', Names = [''/web1'']\<rparr>"

definition acWeb2 :: apiContainer where
  "acWeb2 = \<lparr>ID = ''2'', Names = [''/web2'']\<rparr>"

definition acWeb3 :: apiContainer where
  "acWeb3 = \<lparr>ID = ''3'', Names = [''/web3'']\<rparr>"

definition acGone :: apiContainer where
  "acGone = \<lparr>ID = ''4'', Names = [''/gone'']\<rparr>"

definition cWeb1 :: container where
  "cWeb1 = \<lparr>Env = [''VIRTUAL_HOST'' \<mapsto> ''a.com'', ''SSL_CERT_NAME'' \<mapsto> ''foo''],
             Ports = [''8080/tcp''], IPAddress = ''172.17.0.2''\<rparr>"

definition cWeb2 :: container where
  "cWeb2 = \<lparr>Env = [''VIRTUAL_HOST'' \<mapsto> ''b.com'', ''VIRTUAL_PORT'' \<mapsto> ''9000''],
             Ports = [''80/tcp'', ''443/tcp''], IPAddress = ''172.17.0.3''\<rparr>"

definition cWeb3 :: container where
  "cWeb3 = \<lparr>Env = [''VIRTUAL_HOST'' \<mapsto> ''c.com''],
             Ports = [''80/tcp'', ''443/tcp''], IPAddress = ''172.17.0.4''\<rparr>"

definition inspectD :: "string \<Rightarrow> error + container" where
  "inspectD i =
     (if i = ''1'' then Inr cWeb1 else if i = ''2'' then Inr cWeb2
      else if i = ''3'' then Inr cWeb3 else Inl (DockerError ''no such container''))"

definition clientD :: dockerClient where
  "clientD = \<lparr>ListContainers = Inr [acWeb1, acGone, acWeb2, acWeb3], InspectContainer = inspectD\<rparr>"

definition clientDown :: dockerClient where
  "clientDown = \<lparr>ListContainers = Inl (DockerError ''cannot connect''), InspectContainer = inspectD\<rparr>"

definition noJSON :: unmarshal where
  "noJSON s = (Some (JSONError s), [])"

definition worldS :: world where
  "worldS = \<lparr>dirs = [sslDir \<mapsto> plainDir [(''foo.crt'', File ''cert'' True True)]],
             mkdirOK = (\<lambda>d. True), trace = []\<rparr>"

section \<open>Lemmas\<close>

lemmas fs_defs =
  osStat_def ReadFile_def WriteFile_def osRemove_def ReadDir_def MkdirAll_def
  pathJoin_def JoinPath_def located_def Dir_def Base_def Clean_def elements_def
  logCall_def setEntries_def entryAt_def emptyDir_def
  nginxConfigDir_def nginxHtpasswdDir_def sslDir_def certPath_def keyPath_def

lemmas run_defs =
  writeNewFiles_def writeNewConfigFile_def writeNewHtpasswdFile_def writeIfChanged_def
  removeOldFiles_def

lemmas ex_defs =
  endpoint_def demoTemplate_def plainDir_def ccsB_def worldB_def worldA_def dirA_def world0_def
  worldB1_def worldB2_def worldB3_def worldB1r_def worldC_def worldC1_def worldC2_def
  ccsH_def worldH_def

lemmas docker_defs =
  acWeb1_def acWeb2_def acWeb3_def acGone_def cWeb1_def cWeb2_def cWeb3_def inspectD_def
  clientD_def clientDown_def noJSON_def worldS_def plainDir_def

subsection \<open>The marker test\<close>

lemma Contains_iff: "Contains s substr \<longleftrightarrow> (\<exists>ps ss. s = ps @ substr @ ss)"
proof (induction s)
  case Nil
  then show ?case by auto
next
  case (Cons c s)
  show ?case
  proof
    assume "Contains (c # s) substr"
    then consider "prefix substr (c # s)" | "Contains s substr" by auto
    then show "\<exists>ps ss. c # s = ps @ substr @ ss"
    proof cases
      case 1
      then obtain ss where "c # s = substr @ ss" by (auto simp: prefix_def)
      then have "c # s = [] @ substr @ ss" by simp
      then show ?thesis by blast
    next
      case 2
      with Cons.IH obtain ps ss where "s = ps @ substr @ ss" by blast
      then have "c # s = (c # ps) @ substr @ ss" by simp
      then show ?thesis by blast
    qed
  next
    assume "\<exists>ps ss. c # s = ps @ substr @ ss"
    then obtain ps ss where eq: "c # s = ps @ substr @ ss" by blast
    show "Contains (c # s) substr"
    proof (cases ps)
      case Nil
      with eq have "prefix substr (c # s)" by (simp add: prefix_def)
      then show ?thesis by simp
    next
      case (Cons a ps')
      with eq have "s = ps' @ substr @ ss" by simp
      with Cons.IH have "Contains s substr" by blast
      then show ?thesis by simp
    qed
  qed
qed

subsection \<open>Frames\<close>

lemma frame_refl: "frame w w P"
  by (simp add: frame_def)

lemma frame_mono: "frame w w' P \<Longrightarrow> P \<subseteq> Q \<Longrightarrow> frame w w' Q"
  unfolding frame_def by blast

lemma frame_entryAt: "frame w w' P \<Longrightarrow> q \<notin> P \<Longrightarrow> entryAt w' q = entryAt w q"
  unfolding frame_def by blast

lemma frame_perms: "frame w w' P \<Longrightarrow> dirs w d \<noteq> None \<Longrightarrow> dirPerms w' d = dirPerms w d"
  unfolding frame_def by blast

lemma frame_reloads: "frame w w' P \<Longrightarrow> reloads w' = reloads w"
  unfolding frame_def by blast

lemma dirPerms_None: "dirPerms w d = None \<longleftrightarrow> dirs w d = None"
  by (simp add: dirPerms_def)

lemma frame_trans: 
  assumes "frame w w' P" and "frame w' w'' Q"
  shows "frame w w'' (P \<union> Q)"
proof -
  have "dirPerms w'' d = dirPerms w d" if "dirs w d \<noteq> None" for d
  proof -
    from that assms(1) have a: "dirPerms w' d = dirPerms w d" by (simp add: frame_def)
    with that have "dirs w' d \<noteq> None" using dirPerms_None by metis
    with assms(2) have "dirPerms w'' d = dirPerms w' d" by (simp add: frame_def)
    with a show ?thesis by simp
  qed
  with assms show ?thesis by (auto simp: frame_def)
qed

lemma WriteFile_frame: "WriteFile p c w = (e, w') \<Longrightarrow> frame w w' {p}"
  by (cases p)
     (auto simp: WriteFile_def Let_def frame_def reloads_def dirPerms_def entryAt_def
        setEntries_def logCall_def update_conv' delete_conv' map_add_def
        split: option.splits entry.splits if_splits)

lemma osRemove_frame: "osRemove p w = (e, w') \<Longrightarrow> frame w w' {p}"
  by (cases p)
     (auto simp: osRemove_def Let_def frame_def reloads_def dirPerms_def entryAt_def
        setEntries_def logCall_def update_conv' delete_conv' map_add_def
        split: option.splits entry.splits if_splits)

lemma MkdirAll_frame: "MkdirAll d w = (e, w') \<Longrightarrow> frame w w' {}"
  by (auto simp: MkdirAll_def frame_def reloads_def dirPerms_def entryAt_def emptyDir_def
        logCall_def split: option.splits if_splits)

subsection \<open>Paths\<close>

lemma splitOn_none: "c \<notin> set xs \<Longrightarrow> splitOn c xs = [xs]"
  by (induction xs) auto

lemma takeWhile_upto: "c \<notin> set xs \<Longrightarrow> takeWhile (\<lambda>x. x \<noteq> c) (xs @ c # ys) = xs"
  by (induction xs) auto

lemma dropWhile_upto: "c \<notin> set xs \<Longrightarrow> dropWhile (\<lambda>x. x \<noteq> c) (xs @ c # ys) = c # ys"
  by (induction xs) auto

lemma Base_append: "CHR ''/'' \<notin> set n \<Longrightarrow> Base (p @ CHR ''/'' # n) = n"
  by (simp add: Base_def takeWhile_upto)

lemma Dir_append:
  assumes "CHR ''/'' \<notin> set n" and "p \<noteq> []"
  shows "Dir (p @ CHR ''/'' # n) = p"
proof -
  from assms(1) have "dropWhile (\<lambda>c. c \<noteq> CHR ''/'') (rev n @ CHR ''/'' # rev p) = CHR ''/'' # rev p"
    by (simp add: dropWhile_upto)
  then have "rev (dropWhile (\<lambda>c. c \<noteq> CHR ''/'') (rev (p @ CHR ''/'' # n))) = p @ ''/''"
    by simp
  with assms(2) show ?thesis by (simp add: Dir_def)
qed

lemma Clean_conf:
  assumes "fileName n"
  shows "Clean (nginxConfigDir @ CHR ''/'' # n) = nginxConfigDir @ CHR ''/'' # n"
proof -
  from assms have s: "splitOn CHR ''/'' n = [n]" by (simp add: fileName_def splitOn_none)
  from assms have n: "n \<noteq> []" "n \<noteq> ''.''" "n \<noteq> ''..''" by (simp_all add: fileName_def)
  from s n show ?thesis
    by (simp add: Clean_def elements_def nginxConfigDir_def)
qed

lemma Clean_htpasswd:
  assumes "fileName n"
  shows "Clean (nginxHtpasswdDir @ CHR ''/'' # n) = nginxHtpasswdDir @ CHR ''/'' # n"
proof -
  from assms have s: "splitOn CHR ''/'' n = [n]" by (simp add: fileName_def splitOn_none)
  from assms have n: "n \<noteq> []" "n \<noteq> ''.''" "n \<noteq> ''..''" by (simp_all add: fileName_def)
  from s n show ?thesis
    by (simp add: Clean_def elements_def nginxHtpasswdDir_def)
qed

text \<open>In the two directories of the program the name of a file is joined to its own entry.\<close>

lemma pathJoin_fileName:
  assumes "targetDir d" and "fileName n"
  shows "pathJoin d n = (d, n)"
proof -
  from assms(1) have ne: "d \<noteq> []" by (auto simp: targetDir_def nginxConfigDir_def nginxHtpasswdDir_def)
  from assms have "Clean (d @ CHR ''/'' # n) = d @ CHR ''/'' # n"
    by (auto simp: targetDir_def Clean_conf Clean_htpasswd)
  with ne have "JoinPath d n = d @ CHR ''/'' # n" by (simp add: JoinPath_def)
  moreover from assms(2) have "CHR ''/'' \<notin> set n" by (simp add: fileName_def)
  ultimately show ?thesis using ne by (simp add: pathJoin_def located_def Base_append Dir_append)
qed

text \<open>
  Other names are joined to other entries: to the entry of another name, to an entry of
  the other directory or of a subdirectory, to the directory itself.
\<close>

lemma pathJoin_elsewhere:
  "pathJoin nginxConfigDir ''./b'' = (nginxConfigDir, ''b'')"
  "pathJoin nginxConfigDir ''b/'' = (nginxConfigDir, ''b'')"
  "pathJoin nginxHtpasswdDir ''../conf.d/x'' = (nginxConfigDir, ''x'')"
  "pathJoin nginxConfigDir ''web/db'' = (''/etc/nginx/conf.d/web'', ''db'')"
  "pathJoin nginxConfigDir [] = (''/etc/nginx'', ''conf.d'')"
  by (simp_all add: pathJoin_def JoinPath_def located_def Dir_def Base_def Clean_def elements_def
      nginxConfigDir_def nginxHtpasswdDir_def)

lemma Clean_examples:
  "Clean ''a/../..'' = ''..''" "Clean ''/..'' = ''/''" "Clean ''../../a/..'' = ''../..''"
  "Clean ''a//b/'' = ''a/b''" "Clean [] = ''.''" "Clean ''/'' = ''/''" "Clean ''./'' = ''.''"
  "Clean ''/../a/b/../././/c'' = ''/a/c''" "Clean ''abc/def/../../..'' = ''..''"
  by (simp_all add: Clean_def elements_def)

lemma targets_plain:
  assumes "targetDir d" and "\<forall>n\<in>S. fileName n"
  shows "targets d S = {d} \<times> S"
proof -
  from assms have "pathJoin d n = (d, n)" if "n \<in> S" for n
    using that by (simp add: pathJoin_fileName)
  then show ?thesis by (force simp: targets_def image_iff)
qed

lemma fileNames_iff: "fileNames ccs \<longleftrightarrow> (\<forall>cc\<in>set ccs. fileName (Name cc))"
  by (simp add: fileNames_def list_all_iff)

lemma map_of_defined_iff: "(map_of es n \<noteq> None) = (n \<in> fst ` set es)"
  by (simp add: map_of_eq_None_iff)

lemma dirNames_entryAt: "dirNames w d = {n. entryAt w (d, n) \<noteq> None}"
proof (cases "dirs w d")
  case None
  then show ?thesis by (simp add: dirNames_def entryAt_def)
next
  case (Some D)
  have "fst ` set (entries D) = {n. map_of (entries D) n \<noteq> None}"
    using map_of_defined_iff [of "entries D"] by blast
  with Some show ?thesis by (simp add: dirNames_def entryAt_def)
qed

lemma listing_iff: "listing w d \<longleftrightarrow> (\<forall>n\<in>dirNames w d. fileName n)"
  by (auto simp: listing_def dirNames_def list_all_iff split: option.splits)

lemma listing_frame:
  assumes "frame w w' P" and "listing w d" and "\<forall>n. (d, n) \<in> P \<longrightarrow> fileName n"
  shows "listing w' d"
  unfolding listing_iff
proof
  fix n assume n: "n \<in> dirNames w' d"
  show "fileName n"
  proof (cases "(d, n) \<in> P")
    case True
    with assms(3) show ?thesis by blast
  next
    case False
    with assms(1) have "entryAt w' (d, n) = entryAt w (d, n)" by (rule frame_entryAt)
    with n have "n \<in> dirNames w d" by (simp add: dirNames_entryAt)
    with assms(2) show ?thesis by (simp add: listing_iff)
  qed
qed

subsection \<open>What a write establishes\<close>

lemma holds_obs:
  "holds w p b \<longleftrightarrow>
     (\<exists>l m. dirPerms w (fst p) = Some (l, True, m)) \<and> (\<exists>wr. entryAt w p = Some (File b True wr))"
  by (auto simp: holds_def osStat_def ReadFile_def dirPerms_def entryAt_def
      split: option.splits entry.splits if_splits)

lemma holds_frame:
  assumes "frame w w' P" and "p \<notin> P" and "holds w p b"
  shows "holds w' p b"
proof -
  from assms(3) obtain l m wr where a: "dirPerms w (fst p) = Some (l, True, m)"
    and b: "entryAt w p = Some (File b True wr)" by (auto simp: holds_obs)
  from a have "dirs w (fst p) \<noteq> None" by (auto simp: dirPerms_def)
  with assms(1) a have "dirPerms w' (fst p) = Some (l, True, m)" by (simp add: frame_perms)
  moreover from assms(1,2) b have "entryAt w' p = Some (File b True wr)" by (simp add: frame_entryAt)
  ultimately show ?thesis by (auto simp: holds_obs)
qed

lemma holds_quiet: "holds w p b \<Longrightarrow> writeIfChanged p b w = (False, None, w)"
  by (simp add: holds_def writeIfChanged_def)

lemma WriteFile_holds:
  "WriteFile p c w = (None, w') \<Longrightarrow> osStat w p \<noteq> None \<or> (\<exists>old. ReadFile w p = Inr old) \<Longrightarrow> holds w' p c"
  by (cases p)
     (auto simp: WriteFile_def Let_def holds_def osStat_def ReadFile_def
        setEntries_def logCall_def update_conv' map_add_def
        split: option.splits entry.splits if_splits)

lemma writeIfChanged_holds:
  "writeIfChanged p c w = (ch, None, w') \<Longrightarrow> holds w' p c"
  by (auto simp: writeIfChanged_def holds_def dest: WriteFile_holds
      split: if_splits sum.splits prod.splits)

lemma writeIfChanged_frame:
  "writeIfChanged p c w = (ch, e, w') \<Longrightarrow> frame w w' {p}"
  by (auto simp: writeIfChanged_def frame_refl dest: WriteFile_frame
      split: if_splits sum.splits prod.splits)

lemma writeNewConfigFile_artifact: "writeNewConfigFile (Inr t) = artifact t"
  by (intro ext) (simp add: writeNewConfigFile_def artifact_def)

lemma writeNewHtpasswdFile_artifact: "writeNewHtpasswdFile = artifact htpasswdContent"
  by (intro ext) (simp add: writeNewHtpasswdFile_def artifact_def htpasswdContent_def)

lemma artifact_paths:
  assumes "artifact g d cc w = (ch, e, w')"
  shows "frame w w' (targets d (produced g [cc]))"
proof (cases "g cc")
  case None
  with assms show ?thesis by (simp add: artifact_def frame_refl)
next
  case (Some b)
  with assms have "frame w w' {pathJoin d (Name cc)}"
    by (auto simp: artifact_def dest: writeIfChanged_frame)
  moreover from Some have "produced g [cc] = {Name cc}" by (auto simp: produced_def)
  ultimately show ?thesis by (simp add: targets_def)
qed

lemma artifact_quiet_after:
  "targetDir d \<Longrightarrow> fileName (Name cc) \<Longrightarrow> artifact g d cc w = (ch, None, w') \<Longrightarrow> quiet g d cc w'"
  by (auto simp: artifact_def quiet_def pathJoin_fileName dest: writeIfChanged_holds split: option.splits)

lemma quiet_artifact:
  "targetDir d \<Longrightarrow> fileName (Name cc) \<Longrightarrow> quiet g d cc w \<Longrightarrow> artifact g d cc w = (False, None, w)"
  by (auto simp: artifact_def quiet_def pathJoin_fileName holds_quiet split: option.splits)

lemma quiet_frame:
  "frame w w' P \<Longrightarrow> (d, Name cc) \<notin> P \<Longrightarrow> quiet g d cc w \<Longrightarrow> quiet g d cc w'"
  by (auto simp: quiet_def dest: holds_frame split: option.splits)

lemma produced_Cons: "produced g (cc # ccs) = produced g [cc] \<union> produced g ccs"
  by (auto simp: produced_def)

lemma produced_subset: "produced g ccs \<subseteq> Name ` set ccs"
  by (auto simp: produced_def)

lemma produced_fileNames: "fileNames ccs \<Longrightarrow> \<forall>n\<in>produced g ccs. fileName n"
  by (auto simp: fileNames_iff produced_def)

lemma writeEach_paths:
  "writeEach (artifact g) d ccs acc w = (ch, e, w') \<Longrightarrow> frame w w' (targets d (produced g ccs))"
proof (induction ccs arbitrary: acc w)
  case Nil
  then show ?case by (simp add: frame_refl)
next
  case (Cons cc ccs)
  obtain c1 e1 w1 where s: "artifact g d cc w = (c1, e1, w1)"
    by (cases "artifact g d cc w") auto
  then have f1: "frame w w1 (targets d (produced g [cc]))" by (rule artifact_paths)
  show ?case
  proof (cases e1)
    case None
    with Cons.prems s have "writeEach (artifact g) d ccs (if c1 then True else acc) w1 = (ch, e, w')"
      by simp
    then have "frame w1 w' (targets d (produced g ccs))" by (rule Cons.IH)
    with f1 have "frame w w' (targets d (produced g [cc]) \<union> targets d (produced g ccs))"
      by (rule frame_trans)
    then show ?thesis by (rule frame_mono) (auto simp: produced_def targets_def)
  next
    case (Some x)
    with Cons.prems s have "w' = w1" by simp
    with f1 show ?thesis by (auto intro: frame_mono simp: produced_def targets_def)
  qed
qed

lemma writeEach_frame:
  assumes "targetDir d" and "fileNames ccs"
    and "writeEach (artifact g) d ccs acc w = (ch, e, w')"
  shows "frame w w' ({d} \<times> produced g ccs)"
proof -
  from assms(3) have "frame w w' (targets d (produced g ccs))" by (rule writeEach_paths)
  moreover from assms(1,2) have "targets d (produced g ccs) = {d} \<times> produced g ccs"
    by (simp add: targets_plain produced_fileNames)
  ultimately show ?thesis by simp
qed

lemma writeEach_quiet_after:
  "targetDir d \<Longrightarrow> fileNames ccs \<Longrightarrow> distinct (map Name ccs) \<Longrightarrow>
   writeEach (artifact g) d ccs acc w = (ch, None, w') \<Longrightarrow>
     \<forall>cc\<in>set ccs. quiet g d cc w'"
proof (induction ccs arbitrary: acc w)
  case Nil
  then show ?case by simp
next
  case (Cons cc ccs)
  from Cons.prems(2) have fn: "fileName (Name cc)" and fns: "fileNames ccs"
    by (simp_all add: fileNames_iff)
  obtain c1 e1 w1 where s: "artifact g d cc w = (c1, e1, w1)"
    by (cases "artifact g d cc w") auto
  with Cons.prems(4) have e1: "e1 = None" by (cases e1) auto
  with Cons.prems(4) s have r: "writeEach (artifact g) d ccs (if c1 then True else acc) w1 = (ch, None, w')"
    by simp
  from Cons.prems(3) have "distinct (map Name ccs)" by simp
  with Cons.prems(1) fns have rest: "\<forall>c\<in>set ccs. quiet g d c w'" using r by (rule Cons.IH)
  from Cons.prems(1) fn s e1 have q1: "quiet g d cc w1" by (auto dest: artifact_quiet_after)
  from Cons.prems(1) fns r have fr: "frame w1 w' ({d} \<times> produced g ccs)" by (rule writeEach_frame)
  from Cons.prems(3) have "Name cc \<notin> Name ` set ccs" by simp
  with produced_subset have nin: "(d, Name cc) \<notin> {d} \<times> produced g ccs" by blast
  from fr nin q1 have "quiet g d cc w'" by (rule quiet_frame)
  with rest show ?case by simp
qed

lemma writeEach_quiet:
  "targetDir d \<Longrightarrow> fileNames ccs \<Longrightarrow> \<forall>cc\<in>set ccs. quiet g d cc w \<Longrightarrow>
     writeEach (artifact g) d ccs acc w = (acc, None, w)"
  by (induction ccs arbitrary: acc) (auto simp: quiet_artifact fileNames_iff)

lemma writeNewFiles_paths:
  assumes "writeNewFiles (artifact g) d ccs w = (ch, e, w')"
  shows "frame w w' (targets d (produced g ccs))"
proof -
  obtain e0 w0 where m: "MkdirAll d w = (e0, w0)" by (cases "MkdirAll d w") auto
  then have f0: "frame w w0 {}" by (rule MkdirAll_frame)
  show ?thesis
  proof (cases e0)
    case None
    with assms m have "writeEach (artifact g) d ccs False w0 = (ch, e, w')"
      by (simp add: writeNewFiles_def)
    then have "frame w0 w' (targets d (produced g ccs))" by (rule writeEach_paths)
    with f0 have "frame w w' ({} \<union> targets d (produced g ccs))" by (rule frame_trans)
    then show ?thesis by simp
  next
    case (Some x)
    with assms m have "w' = w0" by (simp add: writeNewFiles_def)
    with f0 show ?thesis by (auto intro: frame_mono)
  qed
qed

lemma writeNewFiles_frame:
  assumes "targetDir d" and "fileNames ccs"
    and "writeNewFiles (artifact g) d ccs w = (ch, e, w')"
  shows "frame w w' ({d} \<times> produced g ccs)"
proof -
  from assms(3) have "frame w w' (targets d (produced g ccs))" by (rule writeNewFiles_paths)
  moreover from assms(1,2) have "targets d (produced g ccs) = {d} \<times> produced g ccs"
    by (simp add: targets_plain produced_fileNames)
  ultimately show ?thesis by simp
qed

lemma MkdirAll_exists: "MkdirAll d w = (None, w') \<Longrightarrow> dirs w' d \<noteq> None"
  by (auto simp: MkdirAll_def logCall_def split: option.splits if_splits)

lemma MkdirAll_quiet: "dirs w d \<noteq> None \<Longrightarrow> MkdirAll d w = (None, w)"
  by (auto simp: MkdirAll_def)

lemma frame_exists: "frame w w' P \<Longrightarrow> dirs w d \<noteq> None \<Longrightarrow> dirs w' d \<noteq> None"
  using frame_perms dirPerms_None by metis

lemma writeNewFiles_after:
  assumes "targetDir d" and "fileNames ccs"
    and "distinct (map Name ccs)" and "writeNewFiles (artifact g) d ccs w = (ch, None, w')"
  shows "dirs w' d \<noteq> None \<and> (\<forall>cc\<in>set ccs. quiet g d cc w')"
proof -
  obtain e0 w0 where m: "MkdirAll d w = (e0, w0)" by (cases "MkdirAll d w") auto
  with assms(4) have e0: "e0 = None" by (cases e0) (auto simp: writeNewFiles_def)
  with assms(4) m have r: "writeEach (artifact g) d ccs False w0 = (ch, None, w')"
    by (simp add: writeNewFiles_def)
  from m e0 have "dirs w0 d \<noteq> None" by (auto dest: MkdirAll_exists)
  moreover from r have "frame w0 w' (targets d (produced g ccs))" by (rule writeEach_paths)
  ultimately have "dirs w' d \<noteq> None" using frame_exists by blast
  moreover from assms(1,2,3) r have "\<forall>cc\<in>set ccs. quiet g d cc w'" by (rule writeEach_quiet_after)
  ultimately show ?thesis by simp
qed

lemma writeNewFiles_quiet:
  "targetDir d \<Longrightarrow> fileNames ccs \<Longrightarrow> dirs w d \<noteq> None \<Longrightarrow> \<forall>cc\<in>set ccs. quiet g d cc w \<Longrightarrow>
     writeNewFiles (artifact g) d ccs w = (False, None, w)"
  by (simp add: writeNewFiles_def MkdirAll_quiet writeEach_quiet)

subsection \<open>What a removal establishes\<close>

lemma removeIfRedundant_eq:
  "removeIfRedundant d f rcs w =
     (if f \<in> Name ` set rcs then (False, None, w)
      else (case osRemove (pathJoin d f) w of (e, w') \<Rightarrow> (True, e, w')))"
  by (induction rcs) auto

lemma osRemove_gone: "osRemove p w = (None, w') \<Longrightarrow> entryAt w' p = None"
  by (cases p)
     (auto simp: osRemove_def Let_def entryAt_def setEntries_def logCall_def delete_conv'
        split: option.splits if_splits)

lemma osRemove_shrinks: "osRemove p w = (e, w') \<Longrightarrow> entryAt w q = None \<Longrightarrow> entryAt w' q = None"
  by (cases p, cases q)
     (auto simp: osRemove_def Let_def entryAt_def setEntries_def logCall_def delete_conv'
        split: option.splits if_splits)

lemma removeIfRedundant_paths:
  assumes "removeIfRedundant d f ccs w = (ch, e, w')"
  shows "frame w w' (targets d ({f} - Name ` set ccs))"
proof (cases "f \<in> Name ` set ccs")
  case True
  with assms show ?thesis by (simp add: removeIfRedundant_eq frame_refl)
next
  case False
  with assms have "frame w w' {pathJoin d f}"
    by (auto simp: removeIfRedundant_eq dest: osRemove_frame split: prod.splits)
  with False show ?thesis by (auto intro: frame_mono simp: targets_def)
qed

lemma removeIfRedundant_shrinks:
  "removeIfRedundant d f ccs w = (ch, e, w') \<Longrightarrow> entryAt w q = None \<Longrightarrow> entryAt w' q = None"
  by (auto simp: removeIfRedundant_eq dest: osRemove_shrinks split: if_splits prod.splits)

lemma removeIfRedundant_gone:
  "targetDir d \<Longrightarrow> fileName f \<Longrightarrow>
   removeIfRedundant d f ccs w = (ch, None, w') \<Longrightarrow> f \<notin> Name ` set ccs \<Longrightarrow>
     entryAt w' (d, f) = None \<and> ch"
  by (auto simp: removeIfRedundant_eq pathJoin_fileName dest: osRemove_gone split: prod.splits)

lemma removeEach_paths:
  "removeEach d fs ccs acc w = (ch, e, w') \<Longrightarrow> frame w w' (targets d (set fs - Name ` set ccs))"
proof (induction fs arbitrary: acc w)
  case Nil
  then show ?case by (simp add: frame_refl)
next
  case (Cons f fs)
  obtain c1 e1 w1 where s: "removeIfRedundant d f ccs w = (c1, e1, w1)"
    by (cases "removeIfRedundant d f ccs w") auto
  then have f1: "frame w w1 (targets d ({f} - Name ` set ccs))" by (rule removeIfRedundant_paths)
  show ?case
  proof (cases e1)
    case None
    with Cons.prems s have "removeEach d fs ccs (if c1 then True else acc) w1 = (ch, e, w')"
      by simp
    then have "frame w1 w' (targets d (set fs - Name ` set ccs))" by (rule Cons.IH)
    with f1 have "frame w w' (targets d ({f} - Name ` set ccs) \<union> targets d (set fs - Name ` set ccs))"
      by (rule frame_trans)
    then show ?thesis by (rule frame_mono) (auto simp: targets_def)
  next
    case (Some x)
    with Cons.prems s have "w' = w1" by simp
    with f1 show ?thesis by (auto intro: frame_mono simp: targets_def)
  qed
qed

lemma removeEach_shrinks:
  "removeEach d fs ccs acc w = (ch, e, w') \<Longrightarrow> entryAt w q = None \<Longrightarrow> entryAt w' q = None"
proof (induction fs arbitrary: acc w)
  case Nil
  then show ?case by simp
next
  case (Cons f fs)
  obtain c1 e1 w1 where s: "removeIfRedundant d f ccs w = (c1, e1, w1)"
    by (cases "removeIfRedundant d f ccs w") auto
  from s Cons.prems(2) have n1: "entryAt w1 q = None" by (rule removeIfRedundant_shrinks)
  show ?case
  proof (cases e1)
    case None
    with Cons.prems s have "removeEach d fs ccs (if c1 then True else acc) w1 = (ch, e, w')"
      by simp
    from this n1 show ?thesis by (rule Cons.IH)
  next
    case (Some x)
    with Cons.prems s have "w' = w1" by simp
    with n1 show ?thesis by simp
  qed
qed

lemma removeEach_after:
  "targetDir d \<Longrightarrow> \<forall>f\<in>set fs. fileName f \<Longrightarrow> removeEach d fs ccs acc w = (ch, None, w') \<Longrightarrow>
     (\<forall>f\<in>set fs. f \<notin> Name ` set ccs \<longrightarrow> entryAt w' (d, f) = None) \<and>
     ch = (acc \<or> (\<exists>f\<in>set fs. f \<notin> Name ` set ccs))"
proof (induction fs arbitrary: acc w)
  case Nil
  then show ?case by simp
next
  case (Cons f fs)
  from Cons.prems(2) have fn: "fileName f" and fns: "\<forall>f\<in>set fs. fileName f" by simp_all
  obtain c1 e1 w1 where s: "removeIfRedundant d f ccs w = (c1, e1, w1)"
    by (cases "removeIfRedundant d f ccs w") auto
  with Cons.prems(3) have e1: "e1 = None" by (cases e1) auto
  with Cons.prems(3) s have r: "removeEach d fs ccs (if c1 then True else acc) w1 = (ch, None, w')"
    by simp
  with Cons.prems(1) fns have ih: "(\<forall>f\<in>set fs. f \<notin> Name ` set ccs \<longrightarrow> entryAt w' (d, f) = None) \<and>
     ch = ((if c1 then True else acc) \<or> (\<exists>f\<in>set fs. f \<notin> Name ` set ccs))" by (rule Cons.IH)
  show ?case
  proof (cases "f \<in> Name ` set ccs")
    case True
    with s have "c1 = False" by (simp add: removeIfRedundant_eq)
    with ih True show ?thesis by auto
  next
    case False
    with Cons.prems(1) fn s e1 have g: "entryAt w1 (d, f) = None \<and> c1"
      by (auto dest: removeIfRedundant_gone)
    with r have "entryAt w' (d, f) = None" by (auto dest: removeEach_shrinks)
    with ih g False show ?thesis by auto
  qed
qed

lemma removeEach_quiet:
  "set fs \<subseteq> Name ` set ccs \<Longrightarrow> removeEach d fs ccs acc w = (acc, None, w)"
  by (induction fs arbitrary: acc) (auto simp: removeIfRedundant_eq)

lemma ReadDir_names:
  assumes "ReadDir w d = Inr fs"
  shows "set fs = {n. entryAt w (d, n) \<noteq> None}"
proof -
  from assms obtain D where D: "dirs w d = Some D" and fs: "fs = sort (map fst (entries D))"
    by (auto simp: ReadDir_def split: option.splits if_splits)
  from fs have "set fs = fst ` set (entries D)" by simp
  also have "\<dots> = {n. map_of (entries D) n \<noteq> None}"
    using map_of_defined_iff [of "entries D"] by blast
  also from D have "\<dots> = {n. entryAt w (d, n) \<noteq> None}" by (simp add: entryAt_def)
  finally show ?thesis .
qed

lemma ReadDir_ok_iff:
  "(\<exists>fs. ReadDir w d = Inr fs) \<longleftrightarrow>
     (\<exists>s m. dirPerms w d = Some (True, s, m) \<and> (s \<or> (\<forall>n. entryAt w (d, n) = None)))"
proof (cases "dirs w d")
  case None
  then show ?thesis by (simp add: ReadDir_def dirPerms_def)
next
  case (Some D)
  have "(entries D = []) = (\<forall>n. map_of (entries D) n = None)"
    by (cases "entries D") (auto simp: fun_upd_apply)
  with Some show ?thesis by (auto simp: ReadDir_def dirPerms_def entryAt_def)
qed

lemma cleanDir_quiet: "cleanDir d ccs w \<Longrightarrow> removeOldFiles d ccs w = (False, None, w)"
  by (auto simp: cleanDir_def removeOldFiles_def removeEach_quiet)

lemma cleanDir_obs:
  "cleanDir d ccs w \<longleftrightarrow>
     (\<exists>s m. dirPerms w d = Some (True, s, m) \<and> (s \<or> (\<forall>n. entryAt w (d, n) = None))) \<and>
     (\<forall>n. entryAt w (d, n) \<noteq> None \<longrightarrow> n \<in> Name ` set ccs)"
proof -
  have "cleanDir d ccs w \<longleftrightarrow>
     (\<exists>fs. ReadDir w d = Inr fs) \<and> (\<forall>n. entryAt w (d, n) \<noteq> None \<longrightarrow> n \<in> Name ` set ccs)"
    unfolding cleanDir_def using ReadDir_names by blast
  then show ?thesis by (simp only: ReadDir_ok_iff)
qed

lemma ReadDir_dirNames: "ReadDir w d = Inr fs \<Longrightarrow> set fs = dirNames w d"
  by (simp add: ReadDir_names dirNames_entryAt)

lemma removeOldFiles_paths:
  assumes "removeOldFiles d ccs w = (ch, e, w')"
  shows "frame w w' (targets d (dirNames w d - Name ` set ccs))"
proof (cases "ReadDir w d")
  case (Inl x)
  with assms show ?thesis by (simp add: removeOldFiles_def frame_refl)
next
  case (Inr fs)
  with assms have "removeEach d fs ccs False w = (ch, e, w')" by (simp add: removeOldFiles_def)
  then have "frame w w' (targets d (set fs - Name ` set ccs))" by (rule removeEach_paths)
  with Inr show ?thesis by (simp add: ReadDir_dirNames)
qed

lemma removeOldFiles_frame:
  assumes "targetDir d" and "listing w d" and "removeOldFiles d ccs w = (ch, e, w')"
  shows "frame w w' ({d} \<times> (- Name ` set ccs))"
proof -
  from assms(3) have "frame w w' (targets d (dirNames w d - Name ` set ccs))"
    by (rule removeOldFiles_paths)
  moreover from assms(1,2)
  have "targets d (dirNames w d - Name ` set ccs) = {d} \<times> (dirNames w d - Name ` set ccs)"
    by (simp add: targets_plain listing_iff)
  ultimately have "frame w w' ({d} \<times> (dirNames w d - Name ` set ccs))" by simp
  then show ?thesis by (rule frame_mono) auto
qed

lemma removeOldFiles_after:
  assumes "targetDir d" and "listing w d" and "removeOldFiles d ccs w = (ch, None, w')"
  shows "(\<forall>n. entryAt w' (d, n) = (if n \<in> Name ` set ccs then entryAt w (d, n) else None)) \<and>
         ch = (\<exists>n. entryAt w (d, n) \<noteq> None \<and> n \<notin> Name ` set ccs)"
proof -
  from assms(3) obtain fs where rd: "ReadDir w d = Inr fs"
    by (cases "ReadDir w d") (auto simp: removeOldFiles_def)
  with assms(3) have r: "removeEach d fs ccs False w = (ch, None, w')" by (simp add: removeOldFiles_def)
  from rd have fs: "set fs = {n. entryAt w (d, n) \<noteq> None}" by (rule ReadDir_names)
  from rd assms(2) have fns: "\<forall>f\<in>set fs. fileName f" by (simp add: ReadDir_dirNames listing_iff)
  from assms(1) fns r have a: "(\<forall>f\<in>set fs. f \<notin> Name ` set ccs \<longrightarrow> entryAt w' (d, f) = None) \<and>
     ch = (False \<or> (\<exists>f\<in>set fs. f \<notin> Name ` set ccs))" by (rule removeEach_after)
  from assms have fr: "frame w w' ({d} \<times> (- Name ` set ccs))" by (rule removeOldFiles_frame)
  have "entryAt w' (d, n) = (if n \<in> Name ` set ccs then entryAt w (d, n) else None)" for n
  proof (cases "n \<in> Name ` set ccs")
    case True
    then have "(d, n) \<notin> {d} \<times> (- Name ` set ccs)" by simp
    with fr have "entryAt w' (d, n) = entryAt w (d, n)" by (rule frame_entryAt)
    with True show ?thesis by simp
  next
    case False
    show ?thesis
    proof (cases "n \<in> set fs")
      case True
      with a False show ?thesis by simp
    next
      case nf: False
      with fs have "entryAt w (d, n) = None" by simp
      with r have "entryAt w' (d, n) = None" by (rule removeEach_shrinks)
      with False show ?thesis by simp
    qed
  qed
  moreover from a fs have "ch = (\<exists>n. entryAt w (d, n) \<noteq> None \<and> n \<notin> Name ` set ccs)" by auto
  ultimately show ?thesis by blast
qed

lemma removeOldFiles_clean:
  assumes "targetDir d" and "listing w d" and "removeOldFiles d ccs w = (ch, None, w')"
  shows "cleanDir d ccs w'"
proof -
  from assms(3) obtain fs where rd: "ReadDir w d = Inr fs"
    by (cases "ReadDir w d") (auto simp: removeOldFiles_def)
  then obtain s m where p: "dirPerms w d = Some (True, s, m)"
    and e: "s \<or> (\<forall>n. entryAt w (d, n) = None)" using ReadDir_ok_iff by blast
  from assms have fr: "frame w w' ({d} \<times> (- Name ` set ccs))" by (rule removeOldFiles_frame)
  from p have "dirs w d \<noteq> None" by (auto simp: dirPerms_def)
  with fr p have p': "dirPerms w' d = Some (True, s, m)" by (simp add: frame_perms)
  from assms have a: "\<forall>n. entryAt w' (d, n) = (if n \<in> Name ` set ccs then entryAt w (d, n) else None)"
    using removeOldFiles_after by blast
  with e have e': "s \<or> (\<forall>n. entryAt w' (d, n) = None)" by auto
  from a have "\<forall>n. entryAt w' (d, n) \<noteq> None \<longrightarrow> n \<in> Name ` set ccs" by auto
  with p' e' show ?thesis unfolding cleanDir_obs by blast
qed

lemma cleanDir_frame:
  assumes "frame w w' P" and "\<forall>n. (d, n) \<notin> P" and "cleanDir d ccs w"
  shows "cleanDir d ccs w'"
proof -
  from assms(3) obtain s m where p: "dirPerms w d = Some (True, s, m)"
    and e: "s \<or> (\<forall>n. entryAt w (d, n) = None)"
    and c: "\<forall>n. entryAt w (d, n) \<noteq> None \<longrightarrow> n \<in> Name ` set ccs"
    unfolding cleanDir_obs by blast
  from p have "dirs w d \<noteq> None" by (auto simp: dirPerms_def)
  with assms(1) p have p': "dirPerms w' d = Some (True, s, m)" by (simp add: frame_perms)
  from assms(1,2) have "\<forall>n. entryAt w' (d, n) = entryAt w (d, n)" by (simp add: frame_entryAt)
  with p' e c show ?thesis unfolding cleanDir_obs by auto
qed

lemma WriteFile_grows: "WriteFile p c w = (e, w') \<Longrightarrow> entryAt w q \<noteq> None \<Longrightarrow> entryAt w' q \<noteq> None"
  by (cases p, cases q)
     (auto simp: WriteFile_def Let_def entryAt_def setEntries_def logCall_def update_conv' map_add_def
        split: option.splits entry.splits if_splits)

lemma writeIfChanged_grows:
  "writeIfChanged p c w = (ch, e, w') \<Longrightarrow> entryAt w q \<noteq> None \<Longrightarrow> entryAt w' q \<noteq> None"
  by (auto simp: writeIfChanged_def dest: WriteFile_grows split: if_splits sum.splits prod.splits)

lemma artifact_grows:
  "artifact g d cc w = (ch, e, w') \<Longrightarrow> entryAt w q \<noteq> None \<Longrightarrow> entryAt w' q \<noteq> None"
  by (auto simp: artifact_def dest: writeIfChanged_grows split: option.splits)

lemma holds_exists: "holds w p b \<Longrightarrow> entryAt w p \<noteq> None"
  by (auto simp: holds_obs)

lemma writeEach_grows:
  "writeEach (artifact g) d ccs acc w = (ch, e, w') \<Longrightarrow> entryAt w q \<noteq> None \<Longrightarrow> entryAt w' q \<noteq> None"
proof (induction ccs arbitrary: acc w)
  case Nil
  then show ?case by simp
next
  case (Cons cc ccs)
  obtain c1 e1 w1 where s: "artifact g d cc w = (c1, e1, w1)"
    by (cases "artifact g d cc w") auto
  from s Cons.prems(2) have n1: "entryAt w1 q \<noteq> None" by (rule artifact_grows)
  show ?case
  proof (cases e1)
    case None
    with Cons.prems s have "writeEach (artifact g) d ccs (if c1 then True else acc) w1 = (ch, e, w')"
      by simp
    from this n1 show ?thesis by (rule Cons.IH)
  next
    case (Some x)
    with Cons.prems s have "w' = w1" by simp
    with n1 show ?thesis by simp
  qed
qed

lemma writeEach_produced:
  "targetDir d \<Longrightarrow> fileNames ccs \<Longrightarrow> writeEach (artifact g) d ccs acc w = (ch, None, w') \<Longrightarrow>
     \<forall>n\<in>produced g ccs. entryAt w' (d, n) \<noteq> None"
proof (induction ccs arbitrary: acc w)
  case Nil
  then show ?case by (simp add: produced_def)
next
  case (Cons cc ccs)
  from Cons.prems(2) have fn: "fileName (Name cc)" and fns: "fileNames ccs"
    by (simp_all add: fileNames_iff)
  obtain c1 e1 w1 where s: "artifact g d cc w = (c1, e1, w1)"
    by (cases "artifact g d cc w") auto
  with Cons.prems(3) have e1: "e1 = None" by (cases e1) auto
  with Cons.prems(3) s have r: "writeEach (artifact g) d ccs (if c1 then True else acc) w1 = (ch, None, w')"
    by simp
  with Cons.prems(1) fns have ih: "\<forall>n\<in>produced g ccs. entryAt w' (d, n) \<noteq> None" by (rule Cons.IH)
  have "entryAt w' (d, n) \<noteq> None" if "n \<in> produced g [cc]" for n
  proof -
    from that obtain b where b: "g cc = Some b" and n: "n = Name cc"
      by (auto simp: produced_def split: if_splits)
    from Cons.prems(1) fn s e1 have "quiet g d cc w1" by (auto dest: artifact_quiet_after)
    with b n have "entryAt w1 (d, n) \<noteq> None" by (auto simp: quiet_def dest: holds_exists)
    with r show ?thesis by (rule writeEach_grows)
  qed
  with ih show ?case by (auto simp: produced_Cons [of g cc ccs])
qed

lemma writeNewFiles_names:
  assumes "targetDir d" and "fileNames ccs"
    and "writeNewFiles (artifact g) d ccs w = (ch, None, w')"
  shows "dirNames w' d = dirNames w d \<union> produced g ccs"
proof -
  obtain e0 w0 where m: "MkdirAll d w = (e0, w0)" by (cases "MkdirAll d w") auto
  with assms(3) have e0: "e0 = None" by (cases e0) (auto simp: writeNewFiles_def)
  with assms(3) m have r: "writeEach (artifact g) d ccs False w0 = (ch, None, w')"
    by (simp add: writeNewFiles_def)
  from m have "frame w w0 {}" by (rule MkdirAll_frame)
  then have z: "entryAt w0 q = entryAt w q" for q by (simp add: frame_entryAt)
  from assms(1,2) r have fr: "frame w0 w' ({d} \<times> produced g ccs)" by (rule writeEach_frame)
  from assms(1,2) r have pr: "\<forall>n\<in>produced g ccs. entryAt w' (d, n) \<noteq> None"
    by (rule writeEach_produced)
  have "(entryAt w' (d, n) \<noteq> None) = (entryAt w (d, n) \<noteq> None \<or> n \<in> produced g ccs)" for n
  proof (cases "n \<in> produced g ccs")
    case True
    with pr show ?thesis by simp
  next
    case False
    then have "(d, n) \<notin> {d} \<times> produced g ccs" by simp
    with fr have "entryAt w' (d, n) = entryAt w0 (d, n)" by (rule frame_entryAt)
    with z False show ?thesis by simp
  qed
  then show ?thesis by (auto simp: dirNames_entryAt)
qed

lemma removeOldFiles_names:
  assumes "targetDir d" and "listing w d" and "removeOldFiles d ccs w = (ch, None, w')"
  shows "dirNames w' d = dirNames w d \<inter> Name ` set ccs"
  using removeOldFiles_after [OF assms] by (auto simp: dirNames_entryAt)

lemma writeNewFiles_listing:
  assumes "targetDir d" and "fileNames ccs" and "listing w d'"
    and "writeNewFiles (artifact g) d ccs w = (ch, e, w')"
  shows "listing w' d'"
proof -
  from assms(1,2,4) have "frame w w' ({d} \<times> produced g ccs)" by (rule writeNewFiles_frame)
  moreover from assms(2) have "\<forall>n. (d', n) \<in> {d} \<times> produced g ccs \<longrightarrow> fileName n"
    using produced_fileNames [of ccs g] by auto
  ultimately show ?thesis using assms(3) by (blast intro: listing_frame)
qed

lemma sync_names:
  assumes "targetDir d" and "fileNames ccs" and "listing w d"
    and "writeNewFiles (artifact g) d ccs w = (c1, None, w1)"
    and "removeOldFiles d ccs w1 = (c2, None, w2)"
  shows "dirNames w2 d = (dirNames w d \<inter> Name ` set ccs) \<union> produced g ccs"
proof -
  from assms(1,2,4) have "dirNames w1 d = dirNames w d \<union> produced g ccs"
    by (rule writeNewFiles_names)
  moreover from assms(1,2,3,4) have "listing w1 d" by (rule writeNewFiles_listing)
  with assms(1) have "dirNames w2 d = dirNames w1 d \<inter> Name ` set ccs"
    using assms(5) by (rule removeOldFiles_names)
  ultimately show ?thesis using produced_subset [of g ccs] by auto
qed

subsection \<open>The steps of a cycle\<close>

lemma writeEach_parse_error:
  "writeEach (writeNewConfigFile (Inl x)) d ccs acc w =
     (if ccs = [] then (acc, None, w) else (False, Some x, w))"
  by (cases ccs) (simp_all add: writeNewConfigFile_def)

lemma rendered_subset: "rendered parsed ccs \<subseteq> Name ` set ccs"
  using produced_subset by (cases parsed) (auto simp: rendered_def)

lemma rendered_fileNames: "fileNames ccs \<Longrightarrow> \<forall>n\<in>rendered parsed ccs. fileName n"
  using produced_fileNames by (cases parsed) (auto simp: rendered_def)

lemma writeNewConfigFiles_paths:
  assumes "writeNewFiles (writeNewConfigFile parsed) d ccs w = (ch, e, w')"
  shows "frame w w' (targets d (rendered parsed ccs))"
proof (cases parsed)
  case (Inl x)
  obtain e0 w0 where m: "MkdirAll d w = (e0, w0)" by (cases "MkdirAll d w") auto
  then have f0: "frame w w0 {}" by (rule MkdirAll_frame)
  from assms m Inl have "w' = w0"
    by (cases e0) (auto simp: writeNewFiles_def writeEach_parse_error split: if_splits)
  with f0 show ?thesis by (auto intro: frame_mono)
next
  case (Inr t)
  with assms show ?thesis
    by (simp add: writeNewConfigFile_artifact writeNewFiles_paths rendered_def)
qed

lemma writeNewHtpasswdFiles_paths:
  assumes "writeNewFiles writeNewHtpasswdFile d ccs w = (ch, e, w')"
  shows "frame w w' (targets d (produced htpasswdContent ccs))"
  using assms by (simp add: writeNewHtpasswdFile_artifact writeNewFiles_paths)

lemma writeNewConfigFiles_frame:
  assumes "targetDir d" and "fileNames ccs"
    and "writeNewFiles (writeNewConfigFile parsed) d ccs w = (ch, e, w')"
  shows "frame w w' ({d} \<times> rendered parsed ccs)"
proof -
  from assms(3) have "frame w w' (targets d (rendered parsed ccs))"
    by (rule writeNewConfigFiles_paths)
  moreover from assms(1,2) have "targets d (rendered parsed ccs) = {d} \<times> rendered parsed ccs"
    by (simp add: targets_plain rendered_fileNames)
  ultimately show ?thesis by simp
qed

lemma writeNewHtpasswdFiles_frame:
  assumes "targetDir d" and "fileNames ccs"
    and "writeNewFiles writeNewHtpasswdFile d ccs w = (ch, e, w')"
  shows "frame w w' ({d} \<times> produced htpasswdContent ccs)"
  using assms by (simp add: writeNewHtpasswdFile_artifact writeNewFiles_frame)

lemma listing_written:
  assumes "frame w w' ({d'} \<times> S)" and "\<forall>n\<in>S. fileName n" and "listing w d"
  shows "listing w' d"
proof -
  from assms(2) have "\<forall>n. (d, n) \<in> {d'} \<times> S \<longrightarrow> fileName n" by auto
  with assms(1,3) show ?thesis by (blast intro: listing_frame)
qed

lemma listing_other:
  assumes "frame w w' ({d'} \<times> S)" and "d \<noteq> d'" and "listing w d"
  shows "listing w' d"
proof -
  from assms(2) have "\<forall>n. (d, n) \<in> {d'} \<times> S \<longrightarrow> fileName n" by auto
  with assms(1,3) show ?thesis by (blast intro: listing_frame)
qed

lemma reload_entryAt: "entryAt (snd (reloadNginxConfiguration run w)) q = entryAt w q"
  by (cases run)
     (auto simp: reloadNginxConfiguration_def CombinedOutput_def logCall_def entryAt_def)

lemma reload_reloads: "reloads (snd (reloadNginxConfiguration run w)) = reloads w + 1"
  by (cases run)
     (auto simp: reloadNginxConfiguration_def CombinedOutput_def logCall_def reloads_def)

lemma dirs_distinct: "nginxConfigDir \<noteq> nginxHtpasswdDir"
  by (simp add: nginxConfigDir_def nginxHtpasswdDir_def)

lemma targetDirs: "targetDir nginxConfigDir" "targetDir nginxHtpasswdDir"
  by (simp_all add: targetDir_def)

lemma writeNewConfigFiles_after:
  assumes "targetDir d" and "fileNames ccs" and "distinct (map Name ccs)"
    and "writeNewFiles (writeNewConfigFile parsed) d ccs w = (ch, None, w')"
  shows "dirs w' d \<noteq> None \<and>
         (\<forall>cc\<in>set ccs. \<exists>t. parsed = Inr t \<and> quiet t d cc w')"
proof (cases parsed)
  case (Inl x)
  obtain e0 w0 where m: "MkdirAll d w = (e0, w0)" by (cases "MkdirAll d w") auto
  from assms(4) m Inl have "e0 = None \<and> ccs = [] \<and> w' = w0"
    by (cases e0) (auto simp: writeNewFiles_def writeEach_parse_error split: if_splits)
  with m show ?thesis by (auto dest: MkdirAll_exists)
next
  case (Inr t)
  with assms show ?thesis
    using writeNewFiles_after [of d ccs t w ch w'] by (simp add: writeNewConfigFile_artifact)
qed

lemma writeNewConfigFiles_quiet:
  assumes "targetDir d" and "fileNames ccs"
    and "dirs w d \<noteq> None" and "\<forall>cc\<in>set ccs. \<exists>t. parsed = Inr t \<and> quiet t d cc w"
  shows "writeNewFiles (writeNewConfigFile parsed) d ccs w = (False, None, w)"
proof (cases parsed)
  case (Inl x)
  with assms(4) have "ccs = []" by (cases ccs) auto
  with assms(3) show ?thesis by (simp add: writeNewFiles_def MkdirAll_quiet)
next
  case (Inr t)
  with assms show ?thesis by (simp add: writeNewConfigFile_artifact writeNewFiles_quiet)
qed

lemma sync_config_again:
  assumes td: "targetDir d" and fns: "fileNames ccs" and ls: "listing v d"
    and dist: "distinct (map Name ccs)"
    and s1: "writeNewFiles (writeNewConfigFile parsed) d ccs v = (b1, None, v1)"
    and s2: "removeOldFiles d ccs v1 = (b2, None, v2)"
  shows "writeNewFiles (writeNewConfigFile parsed) d ccs v2 = (False, None, v2) \<and>
         removeOldFiles d ccs v2 = (False, None, v2)"
proof -
  from td fns s1 have "frame v v1 ({d} \<times> rendered parsed ccs)" by (rule writeNewConfigFiles_frame)
  moreover from fns have "\<forall>n\<in>rendered parsed ccs. fileName n" by (rule rendered_fileNames)
  ultimately have ls1: "listing v1 d" using ls by (rule listing_written)
  from td ls1 s2 have f: "frame v1 v2 ({d} \<times> (- Name ` set ccs))" by (rule removeOldFiles_frame)
  from td fns dist s1 have a1: "dirs v1 d \<noteq> None"
    and q1: "\<forall>cc\<in>set ccs. \<exists>t. parsed = Inr t \<and> quiet t d cc v1"
    using writeNewConfigFiles_after by blast+
  from a1 f have a2: "dirs v2 d \<noteq> None" by (blast dest: frame_exists)
  have q2: "\<forall>cc\<in>set ccs. \<exists>t. parsed = Inr t \<and> quiet t d cc v2"
  proof
    fix cc assume cc: "cc \<in> set ccs"
    with q1 obtain t where t: "parsed = Inr t" and q: "quiet t d cc v1" by blast
    from cc have "(d, Name cc) \<notin> {d} \<times> (- Name ` set ccs)" by simp
    with f q have "quiet t d cc v2" by (blast intro: quiet_frame)
    with t show "\<exists>t. parsed = Inr t \<and> quiet t d cc v2" by blast
  qed
  from td fns a2 q2 have "writeNewFiles (writeNewConfigFile parsed) d ccs v2 = (False, None, v2)"
    by (rule writeNewConfigFiles_quiet)
  moreover from td ls1 s2 have "cleanDir d ccs v2" by (rule removeOldFiles_clean)
  then have "removeOldFiles d ccs v2 = (False, None, v2)" by (rule cleanDir_quiet)
  ultimately show ?thesis by simp
qed

lemma sync_htpasswd_again:
  assumes td: "targetDir d" and fns: "fileNames ccs" and ls: "listing v d"
    and dist: "distinct (map Name ccs)"
    and s1: "writeNewFiles writeNewHtpasswdFile d ccs v = (b1, None, v1)"
    and s2: "removeOldFiles d ccs v1 = (b2, None, v2)"
  shows "writeNewFiles writeNewHtpasswdFile d ccs v2 = (False, None, v2) \<and>
         removeOldFiles d ccs v2 = (False, None, v2)"
proof -
  from td fns s1 have "frame v v1 ({d} \<times> produced htpasswdContent ccs)"
    by (rule writeNewHtpasswdFiles_frame)
  moreover from fns have "\<forall>n\<in>produced htpasswdContent ccs. fileName n" by (rule produced_fileNames)
  ultimately have ls1: "listing v1 d" using ls by (rule listing_written)
  from td ls1 s2 have f: "frame v1 v2 ({d} \<times> (- Name ` set ccs))" by (rule removeOldFiles_frame)
  from td fns dist s1 have a1: "dirs v1 d \<noteq> None"
    and q1: "\<forall>cc\<in>set ccs. quiet htpasswdContent d cc v1"
    using writeNewFiles_after [of d ccs htpasswdContent v b1 v1]
    by (simp_all add: writeNewHtpasswdFile_artifact)
  from a1 f have a2: "dirs v2 d \<noteq> None" by (blast dest: frame_exists)
  have q2: "\<forall>cc\<in>set ccs. quiet htpasswdContent d cc v2"
  proof
    fix cc assume cc: "cc \<in> set ccs"
    with q1 have q: "quiet htpasswdContent d cc v1" by blast
    from cc have "(d, Name cc) \<notin> {d} \<times> (- Name ` set ccs)" by simp
    with f q show "quiet htpasswdContent d cc v2" by (blast intro: quiet_frame)
  qed
  from td fns a2 q2 have "writeNewFiles writeNewHtpasswdFile d ccs v2 = (False, None, v2)"
    by (simp add: writeNewHtpasswdFile_artifact writeNewFiles_quiet)
  moreover from td ls1 s2 have "cleanDir d ccs v2" by (rule removeOldFiles_clean)
  then have "removeOldFiles d ccs v2 = (False, None, v2)" by (rule cleanDir_quiet)
  ultimately show ?thesis by simp
qed

text \<open>The frames of the four steps of a cycle over endpoints and directories with the names of files.\<close>

lemma cycle_frames:
  assumes fns: "fileNames ccs"
    and lc: "listing w nginxConfigDir" and lh: "listing w nginxHtpasswdDir"
    and s1: "writeNewFiles (writeNewConfigFile parsed) nginxConfigDir ccs w = (c1, e1, w1)"
    and s2: "writeNewFiles writeNewHtpasswdFile nginxHtpasswdDir ccs w1 = (c2, e2, w2)"
    and s3: "removeOldFiles nginxConfigDir ccs w2 = (c3, e3, w3)"
    and s4: "removeOldFiles nginxHtpasswdDir ccs w3 = (c4, e4, w4)"
  shows "frame w w1 ({nginxConfigDir} \<times> rendered parsed ccs)"
    and "frame w1 w2 ({nginxHtpasswdDir} \<times> produced htpasswdContent ccs)"
    and "frame w2 w3 ({nginxConfigDir} \<times> (- Name ` set ccs))"
    and "frame w3 w4 ({nginxHtpasswdDir} \<times> (- Name ` set ccs))"
    and "listing w2 nginxConfigDir" and "listing w3 nginxHtpasswdDir"
proof -
  let ?C = nginxConfigDir and ?H = nginxHtpasswdDir
  have ne: "?H \<noteq> ?C" using dirs_distinct by simp
  from fns have rn: "\<forall>n\<in>rendered parsed ccs. fileName n" by (rule rendered_fileNames)
  from fns have pn: "\<forall>n\<in>produced htpasswdContent ccs. fileName n" by (rule produced_fileNames)
  from targetDirs(1) fns s1 show f1: "frame w w1 ({?C} \<times> rendered parsed ccs)"
    by (rule writeNewConfigFiles_frame)
  from targetDirs(2) fns s2 show f2: "frame w1 w2 ({?H} \<times> produced htpasswdContent ccs)"
    by (rule writeNewHtpasswdFiles_frame)
  from f1 rn lc have "listing w1 ?C" by (rule listing_written)
  with f2 pn show lc2: "listing w2 ?C" by (rule listing_written)
  from targetDirs(1) lc2 s3 show f3: "frame w2 w3 ({?C} \<times> (- Name ` set ccs))"
    by (rule removeOldFiles_frame)
  from f1 rn lh have "listing w1 ?H" by (rule listing_written)
  with f2 pn have "listing w2 ?H" by (rule listing_written)
  with f3 ne show lh3: "listing w3 ?H" by (rule listing_other)
  from targetDirs(2) lh3 s4 show "frame w3 w4 ({?H} \<times> (- Name ` set ccs))"
    by (rule removeOldFiles_frame)
qed

lemma cycle_entryAt:
  assumes fns: "fileNames ccs"
    and lc: "listing w nginxConfigDir" and lh: "listing w nginxHtpasswdDir"
    and q: "q \<notin> {nginxConfigDir} \<times> (rendered parsed ccs \<union> - Name ` set ccs) \<union>
               {nginxHtpasswdDir} \<times> (produced htpasswdContent ccs \<union> - Name ` set ccs)"
  shows "entryAt (snd (configureAndReload parsed run ccs w)) q = entryAt w q"
proof -
  obtain c1 e1 w1 where s1: "writeNewFiles (writeNewConfigFile parsed) nginxConfigDir ccs w = (c1, e1, w1)"
    using prod_cases3 by blast
  obtain c2 e2 w2 where s2: "writeNewFiles writeNewHtpasswdFile nginxHtpasswdDir ccs w1 = (c2, e2, w2)"
    using prod_cases3 by blast
  obtain c3 e3 w3 where s3: "removeOldFiles nginxConfigDir ccs w2 = (c3, e3, w3)"
    using prod_cases3 by blast
  obtain c4 e4 w4 where s4: "removeOldFiles nginxHtpasswdDir ccs w3 = (c4, e4, w4)"
    using prod_cases3 by blast
  note fr = cycle_frames [OF fns lc lh s1 s2 s3 s4]
  from fr(1) q have t1: "entryAt w1 q = entryAt w q" by (auto intro: frame_entryAt)
  from fr(2) q have t2: "entryAt w2 q = entryAt w1 q" by (auto intro: frame_entryAt)
  from fr(3) q have t3: "entryAt w3 q = entryAt w2 q" by (auto intro: frame_entryAt)
  from fr(4) q have t4: "entryAt w4 q = entryAt w3 q" by (auto intro: frame_entryAt)
  show ?thesis
  proof (cases e1)
    case (Some x)
    with s1 t1 show ?thesis by (simp add: configureAndReload_def)
  next
    case n1: None
    show ?thesis
    proof (cases e2)
      case (Some x)
      with s1 s2 n1 t1 t2 show ?thesis by (simp add: configureAndReload_def)
    next
      case n2: None
      show ?thesis
      proof (cases e3)
        case (Some x)
        with s1 s2 s3 n1 n2 t1 t2 t3 show ?thesis by (simp add: configureAndReload_def)
      next
        case n3: None
        show ?thesis
        proof (cases e4)
          case (Some x)
          with s1 s2 s3 s4 n1 n2 n3 t1 t2 t3 t4 show ?thesis by (simp add: configureAndReload_def)
        next
          case n4: None
          with s1 s2 s3 s4 n1 n2 n3 t1 t2 t3 t4 show ?thesis
            by (simp add: configureAndReload_def reload_entryAt)
        qed
      qed
    qed
  qed
qed

subsection \<open>The inventory loop\<close>

lemma IsNotExist_osStat:
  "IsNotExist (osStat w p) \<longleftrightarrow>
     (case dirs w (fst p) of None \<Rightarrow> True | Some D \<Rightarrow> searchable D \<and> map_of (entries D) (snd p) = None)"
  by (simp add: IsNotExist_def osStat_def split: option.splits)

lemma inspectEach_append:
  "inspectEach client um w (xs @ ys) acc =
     (case inspectEach client um w xs acc of Panic \<Rightarrow> Panic | Return acc' \<Rightarrow> inspectEach client um w ys acc')"
proof (induction xs arbitrary: acc)
  case Nil
  show ?case by simp
next
  case (Cons x xs)
  show ?case
  proof (cases "toEndpoint client um w x")
    case Panic
    then show ?thesis by simp
  next
    case (Return r)
    with Cons show ?thesis by (cases r) simp_all
  qed
qed

lemma toEndpoint_inspect_failed:
  "InspectContainer client (ID ac) = Inl e \<Longrightarrow> toEndpoint client um w ac = Return None"
  by (simp add: toEndpoint_def)

lemma port_cases:
  "(if length ps > 1 then None else if length ps = 0 then None
    else Some (foldl (\<lambda>vPort k. Port k) [] ps)) =
   (case ps of [k] \<Rightarrow> Some (Port k) | _ \<Rightarrow> None)"
proof (cases ps)
  case Nil
  then show ?thesis by simp
next
  case (Cons k ks)
  then show ?thesis by (cases ks) simp_all
qed

lemma toEndpoint_inspected:
  assumes "InspectContainer client (ID ac) = Inr c" and "Names ac = name0 # others"
  shows "toEndpoint client um w ac =
     (case Env c ''VIRTUAL_HOST'' of
        None \<Rightarrow> Return None
      | Some vHost \<Rightarrow>
          (case resolvePort c of
             None \<Rightarrow> Return None
           | Some vPort \<Rightarrow>
               Return (Some \<lparr>Name = TrimLeft name0 ''/'', VHost = vHost,
                  ContainerIP = IPAddress c, ContainerPort = vPort,
                  SSLCertName = checkedCert w (Get (Env c) ''SSL_CERT_NAME''),
                  HtpasswdEntries = snd (GetJSON um (Env c) ''HTPASSWD'')\<rparr>)))"
  unfolding toEndpoint_def resolvePort_def port_cases
  by (simp add: assms Let_def checkedCert_def split: option.splits)

lemma toEndpoint_no_panic:
  assumes "Names ac \<noteq> []"
  shows "\<exists>r. toEndpoint client um w ac = Return r"
proof (cases "InspectContainer client (ID ac)")
  case (Inl e)
  then show ?thesis by (simp add: toEndpoint_inspect_failed)
next
  case (Inr c)
  from assms obtain name0 others where "Names ac = name0 # others" by (cases "Names ac") auto
  with Inr show ?thesis by (simp add: toEndpoint_inspected split: option.splits)
qed

lemma inspectEach_total:
  "\<forall>ac\<in>set acs. Names ac \<noteq> [] \<Longrightarrow>
     inspectEach client um w acs acc = Return (acc @ List.map_filter (endpointOf client um w) acs)"
proof (induction acs arbitrary: acc)
  case Nil
  then show ?case by (simp add: List.map_filter_simps)
next
  case (Cons ac acs)
  then have "Names ac \<noteq> []" by simp
  then obtain r where r: "toEndpoint client um w ac = Return r"
    using toEndpoint_no_panic by blast
  from Cons have ih: "inspectEach client um w acs acc' =
      Return (acc' @ List.map_filter (endpointOf client um w) acs)" for acc' by simp
  from r have e: "endpointOf client um w ac = r" by (simp add: endpointOf_def)
  from r e ih show ?case by (cases r) (simp_all add: List.map_filter_simps)
qed

lemma inspectEach_client_cong:
  "InspectContainer client' = InspectContainer client \<Longrightarrow>
     inspectEach client' um w acs acc = inspectEach client um w acs acc"
proof (induction acs arbitrary: acc)
  case Nil
  show ?case by simp
next
  case (Cons ac acs)
  from Cons.prems have t: "toEndpoint client' um w ac = toEndpoint client um w ac"
    by (simp add: toEndpoint_def)
  from Cons have ih: "inspectEach client' um w acs acc' = inspectEach client um w acs acc'" for acc'
    by simp
  show ?case
  proof (cases "toEndpoint client um w ac")
    case Panic
    with t show ?thesis by simp
  next
    case (Return r)
    with t ih show ?thesis by (cases r) simp_all
  qed
qed


subsection \<open>The flag on an error\<close>

lemma writeEach_error_unchanged:
  "writeEach f d ccs acc w = (ch, Some e, w') \<Longrightarrow> \<not> ch"
  by (induction ccs arbitrary: acc w) (auto split: prod.splits option.splits)

lemma removeEach_error_unchanged:
  "removeEach d fs ccs acc w = (ch, Some e, w') \<Longrightarrow> \<not> ch"
  by (induction fs arbitrary: acc w) (auto split: prod.splits option.splits)


subsection \<open>Runs of the examples\<close>

lemma worldA_write:
  "writeNewFiles writeNewHtpasswdFile nginxHtpasswdDir
     [endpoint ''a'' ''a.com'' [''u:h''], endpoint ''b'' ''b.com'' [''v:k'']] worldA =
   (False, Some EACCES,
    \<lparr>dirs = [nginxHtpasswdDir \<mapsto> dirA\<lparr>entries := entries dirA @ [(''a'', File ''u:h'' True True)]\<rparr>],
     mkdirOK = (\<lambda>d. False),
     trace = [SysWrite (nginxHtpasswdDir, ''a'') ''u:h'']\<rparr>)"
  by (simp add: run_defs fs_defs ex_defs)

lemma worldA_remove:
  "removeOldFiles nginxHtpasswdDir [endpoint ''b'' ''b.com'' []] worldA =
   (False, Some ENOTEMPTY,
    \<lparr>dirs = [nginxHtpasswdDir \<mapsto> dirA\<lparr>entries := [(''b'', File ''old'' False True), (''y'', SubDir True)]\<rparr>],
     mkdirOK = (\<lambda>d. False),
     trace = [SysRemove (nginxHtpasswdDir, ''x''), SysRemove (nginxHtpasswdDir, ''y'')]\<rparr>)"
  by (simp add: run_defs fs_defs ex_defs)

lemma worldB_step1:
  "writeNewFiles (writeNewConfigFile (Inr demoTemplate)) nginxConfigDir ccsB worldB =
     (True, None, worldB1)"
  by (simp add: run_defs fs_defs ex_defs)

lemma worldB_step2:
  "writeNewFiles writeNewHtpasswdFile nginxHtpasswdDir ccsB worldB1 = (True, None, worldB2)"
  by (simp add: run_defs fs_defs ex_defs)

lemma worldB_step3: "removeOldFiles nginxConfigDir ccsB worldB2 = (True, None, worldB3)"
  by (simp add: run_defs fs_defs ex_defs)

lemma worldB_step4: "removeOldFiles nginxHtpasswdDir ccsB worldB3 = (False, None, worldB3)"
  by (simp add: run_defs fs_defs ex_defs)

lemma worldB_clean: "removeOldFiles nginxConfigDir ccsB worldB1 = (True, None, worldB1r)"
  by (simp add: run_defs fs_defs ex_defs)

lemma worldB3_again:
  "writeNewFiles (writeNewConfigFile (Inr demoTemplate)) nginxConfigDir ccsB worldB3 =
     (False, None, worldB3)"
  "writeNewFiles writeNewHtpasswdFile nginxHtpasswdDir ccsB worldB3 = (False, None, worldB3)"
  "removeOldFiles nginxConfigDir ccsB worldB3 = (False, None, worldB3)"
  by (simp_all add: run_defs fs_defs ex_defs)

lemma worldC_cycle:
  "writeNewFiles (writeNewConfigFile (Inr demoTemplate)) nginxConfigDir
     [endpoint ''a'' ''a.com'' []] worldC = (True, None, worldC1)"
  "writeNewFiles writeNewHtpasswdFile nginxHtpasswdDir [endpoint ''a'' ''a.com'' []] worldC1 =
     (False, Some EACCES, worldC2)"
  "configureAndReload (Inr demoTemplate) (Exited 0 []) [endpoint ''a'' ''a.com'' []] worldC =
     (Some EACCES, worldC2)"
  by (simp_all add: configureAndReload_def run_defs fs_defs ex_defs)

lemma worldH_sync:
  "writeNewFiles writeNewHtpasswdFile nginxHtpasswdDir ccsH worldH = (False, None, worldH)"
  "removeOldFiles nginxHtpasswdDir ccsH worldH =
   (True, None,
    \<lparr>dirs = [nginxHtpasswdDir \<mapsto> plainDir [(''b'', File ''u:old'' True True)]],
     mkdirOK = (\<lambda>d. True),
     trace = [SysRemove (nginxHtpasswdDir, ''a''), SysRemove (nginxHtpasswdDir, ''c'')]\<rparr>)"
  by (simp_all add: run_defs fs_defs ex_defs)

lemma worldE_remove:
  "removeOldFiles nginxHtpasswdDir [] worldE =
     (False, Some EACCES, worldE\<lparr>trace := [SysRemove (nginxHtpasswdDir, ''y'')]\<rparr>)"
  by (simp add: run_defs fs_defs worldE_def)

text \<open>
  What a name that is not the name of a file does: in \<open>worldH\<close> the credentials of an
  endpoint \<^verbatim>\<open>./b\<close> are written over the file \<open>b\<close>, although the endpoint \<open>b\<close> has
  none and the two names differ; and in \<open>worldB\<close> an endpoint
  \<^verbatim>\<open>../conf.d/x\<close> has its credentials written into the configuration directory.
\<close>

lemma other_names:
  "distinct (map Name [endpoint ''b'' ''b.com'' [], endpoint ''./b'' ''c.com'' [''u:new'']])"
  "\<not> fileNames [endpoint ''b'' ''b.com'' [], endpoint ''./b'' ''c.com'' [''u:new'']]"
  "entryAt (snd (snd (writeNewFiles writeNewHtpasswdFile nginxHtpasswdDir
      [endpoint ''b'' ''b.com'' [], endpoint ''./b'' ''c.com'' [''u:new'']] worldH)))
    (nginxHtpasswdDir, ''b'') = Some (File ''u:new'' True True)"
  "entryAt (snd (snd (writeNewFiles writeNewHtpasswdFile nginxHtpasswdDir
      [endpoint ''../conf.d/x'' ''x.com'' [''u:h'']] worldB)))
    (nginxConfigDir, ''x'') = Some (File ''u:h'' True True)"
  by (simp_all add: run_defs fs_defs ex_defs fileNames_def fileName_def)

lemma example_fileNames:
  "fileNames ccsB" "fileNames ccsH"
  "fileNames [endpoint ''a'' [] [], endpoint ''b'' ''b.com'' []]"
  by (simp_all add: fileNames_def fileName_def ccsB_def ccsH_def endpoint_def)

lemma example_listings:
  "listing worldB nginxConfigDir" "listing worldB nginxHtpasswdDir"
  "listing worldB1 nginxConfigDir"
  "listing worldH nginxConfigDir" "listing worldH nginxHtpasswdDir"
  by (simp_all add: listing_def fileName_def worldB_def worldB1_def worldH_def plainDir_def
      nginxConfigDir_def nginxHtpasswdDir_def)

section \<open>Properties of the specification\<close>

text \<open>
  C1. Idempotence of a reconciliation pass. Take endpoints with pairwise distinct names
  (the invariant of the data model: container names are unique) that are names of files
  (one path element, neither \<^verbatim>\<open>.\<close> nor \<^verbatim>\<open>..\<close>, as the names of containers are), and
  a world in which the entries of the two directories have the names of files (as the
  entries of a directory have). If the
  four steps of a pass (write the configuration files, write the credentials files,
  remove old configuration files, remove old credentials files) all return without error,
  then each of the four steps, run again with the same endpoints and template on the
  world the pass has left, returns \<open>changed = false\<close> without error and leaves that world exactly as it
  is, trace included: no file is written, none is removed and no directory is created.
  A whole second cycle therefore returns \<^verbatim>\<open>nil\<close> without running the reload command.
  The same holds for the sync of either of the two directories alone, with either writer: once
  \<^verbatim>\<open>writeNewFiles\<close> and then \<^verbatim>\<open>removeOldFiles\<close> have returned without error, both
  return \<open>changed = false\<close> and change nothing when run again.
\<close>

theorem sync_idempotent:
  assumes dist: "distinct (map Name ccs)" and fns: "fileNames ccs"
    and lc: "listing w nginxConfigDir" and lh: "listing w nginxHtpasswdDir"
    and s1: "writeNewFiles (writeNewConfigFile parsed) nginxConfigDir ccs w = (c1, None, w1)"
    and s2: "writeNewFiles writeNewHtpasswdFile nginxHtpasswdDir ccs w1 = (c2, None, w2)"
    and s3: "removeOldFiles nginxConfigDir ccs w2 = (c3, None, w3)"
    and s4: "removeOldFiles nginxHtpasswdDir ccs w3 = (c4, None, w4)"
  shows "writeNewFiles (writeNewConfigFile parsed) nginxConfigDir ccs w4 = (False, None, w4) \<and>
         writeNewFiles writeNewHtpasswdFile nginxHtpasswdDir ccs w4 = (False, None, w4) \<and>
         removeOldFiles nginxConfigDir ccs w4 = (False, None, w4) \<and>
         removeOldFiles nginxHtpasswdDir ccs w4 = (False, None, w4) \<and>
         configureAndReload parsed run ccs w4 = (None, w4) \<and>
         (\<forall>d v b1 v1 b2 v2.
            targetDir d \<and> listing v d \<and>
            writeNewFiles (writeNewConfigFile parsed) d ccs v = (b1, None, v1) \<and>
            removeOldFiles d ccs v1 = (b2, None, v2) \<longrightarrow>
              writeNewFiles (writeNewConfigFile parsed) d ccs v2 = (False, None, v2) \<and>
              removeOldFiles d ccs v2 = (False, None, v2)) \<and>
         (\<forall>d v b1 v1 b2 v2.
            targetDir d \<and> listing v d \<and>
            writeNewFiles writeNewHtpasswdFile d ccs v = (b1, None, v1) \<and>
            removeOldFiles d ccs v1 = (b2, None, v2) \<longrightarrow>
              writeNewFiles writeNewHtpasswdFile d ccs v2 = (False, None, v2) \<and>
              removeOldFiles d ccs v2 = (False, None, v2))"
proof -
  let ?C = nginxConfigDir and ?H = nginxHtpasswdDir
  let ?N = "Name ` set ccs"
  have ne: "?C \<noteq> ?H" by (rule dirs_distinct)
  note fr = cycle_frames [OF fns lc lh s1 s2 s3 s4]
  note f2 = fr(2) and f3 = fr(3) and f4 = fr(4)
  \<comment> \<open>the configuration files\<close>
  from targetDirs(1) fns dist s1 have a1: "dirs w1 ?C \<noteq> None"
    and q1: "\<forall>cc\<in>set ccs. \<exists>t. parsed = Inr t \<and> quiet t ?C cc w1"
    using writeNewConfigFiles_after by blast+
  from a1 f2 f3 f4 have a4: "dirs w4 ?C \<noteq> None" by (blast dest: frame_exists)
  have q4: "\<forall>cc\<in>set ccs. \<exists>t. parsed = Inr t \<and> quiet t ?C cc w4"
  proof
    fix cc assume cc: "cc \<in> set ccs"
    with q1 obtain t where t: "parsed = Inr t" and q: "quiet t ?C cc w1" by blast
    from ne have "(?C, Name cc) \<notin> {?H} \<times> produced htpasswdContent ccs" by simp
    with f2 q have "quiet t ?C cc w2" by (blast intro: quiet_frame)
    moreover from cc have "(?C, Name cc) \<notin> {?C} \<times> (- ?N)" by simp
    ultimately have "quiet t ?C cc w3" using f3 by (blast intro: quiet_frame)
    moreover from cc have "(?C, Name cc) \<notin> {?H} \<times> (- ?N)" by simp
    ultimately have "quiet t ?C cc w4" using f4 by (blast intro: quiet_frame)
    with t show "\<exists>t. parsed = Inr t \<and> quiet t ?C cc w4" by blast
  qed
  from targetDirs(1) fns a4 q4
  have r1: "writeNewFiles (writeNewConfigFile parsed) ?C ccs w4 = (False, None, w4)"
    by (rule writeNewConfigFiles_quiet)
  \<comment> \<open>the credentials files\<close>
  from targetDirs(2) fns dist s2 have b2: "dirs w2 ?H \<noteq> None"
    and h2: "\<forall>cc\<in>set ccs. quiet htpasswdContent ?H cc w2"
    using writeNewFiles_after [of ?H ccs htpasswdContent w1 c2 w2]
    by (simp_all add: writeNewHtpasswdFile_artifact)
  from b2 f3 f4 have b4: "dirs w4 ?H \<noteq> None" by (blast dest: frame_exists)
  have h4: "\<forall>cc\<in>set ccs. quiet htpasswdContent ?H cc w4"
  proof
    fix cc assume cc: "cc \<in> set ccs"
    with h2 have q: "quiet htpasswdContent ?H cc w2" by blast
    from ne have "(?H, Name cc) \<notin> {?C} \<times> (- ?N)" by auto
    with f3 q have "quiet htpasswdContent ?H cc w3" by (blast intro: quiet_frame)
    moreover from cc have "(?H, Name cc) \<notin> {?H} \<times> (- ?N)" by simp
    ultimately show "quiet htpasswdContent ?H cc w4" using f4 by (blast intro: quiet_frame)
  qed
  from targetDirs(2) fns b4 h4
  have r2: "writeNewFiles writeNewHtpasswdFile ?H ccs w4 = (False, None, w4)"
    by (simp add: writeNewHtpasswdFile_artifact writeNewFiles_quiet)
  \<comment> \<open>the two removals\<close>
  from targetDirs(1) fr(5) s3 have "cleanDir ?C ccs w3" by (rule removeOldFiles_clean)
  moreover from ne have "\<forall>n. (?C, n) \<notin> {?H} \<times> (- ?N)" by auto
  ultimately have "cleanDir ?C ccs w4" using f4 by (blast intro: cleanDir_frame)
  then have r3: "removeOldFiles ?C ccs w4 = (False, None, w4)" by (rule cleanDir_quiet)
  from targetDirs(2) fr(6) s4 have "cleanDir ?H ccs w4" by (rule removeOldFiles_clean)
  then have r4: "removeOldFiles ?H ccs w4 = (False, None, w4)" by (rule cleanDir_quiet)
  from r1 r2 r3 r4 have r5: "configureAndReload parsed run ccs w4 = (None, w4)"
    by (simp add: configureAndReload_def)
  have one: "\<forall>d v b1 v1 b2 v2.
            targetDir d \<and> listing v d \<and>
            writeNewFiles (writeNewConfigFile parsed) d ccs v = (b1, None, v1) \<and>
            removeOldFiles d ccs v1 = (b2, None, v2) \<longrightarrow>
              writeNewFiles (writeNewConfigFile parsed) d ccs v2 = (False, None, v2) \<and>
              removeOldFiles d ccs v2 = (False, None, v2)"
  proof (intro allI impI)
    fix d v b1 v1 b2 v2
    assume a: "targetDir d \<and> listing v d \<and>
            writeNewFiles (writeNewConfigFile parsed) d ccs v = (b1, None, v1) \<and>
            removeOldFiles d ccs v1 = (b2, None, v2)"
    from a have td: "targetDir d" and ls: "listing v d"
      and x: "writeNewFiles (writeNewConfigFile parsed) d ccs v = (b1, None, v1)"
      and y: "removeOldFiles d ccs v1 = (b2, None, v2)" by simp_all
    from td fns ls dist x y
    show "writeNewFiles (writeNewConfigFile parsed) d ccs v2 = (False, None, v2) \<and>
              removeOldFiles d ccs v2 = (False, None, v2)" by (rule sync_config_again)
  qed
  have two: "\<forall>d v b1 v1 b2 v2.
            targetDir d \<and> listing v d \<and>
            writeNewFiles writeNewHtpasswdFile d ccs v = (b1, None, v1) \<and>
            removeOldFiles d ccs v1 = (b2, None, v2) \<longrightarrow>
              writeNewFiles writeNewHtpasswdFile d ccs v2 = (False, None, v2) \<and>
              removeOldFiles d ccs v2 = (False, None, v2)"
  proof (intro allI impI)
    fix d v b1 v1 b2 v2
    assume a: "targetDir d \<and> listing v d \<and>
            writeNewFiles writeNewHtpasswdFile d ccs v = (b1, None, v1) \<and>
            removeOldFiles d ccs v1 = (b2, None, v2)"
    from a have td: "targetDir d" and ls: "listing v d"
      and x: "writeNewFiles writeNewHtpasswdFile d ccs v = (b1, None, v1)"
      and y: "removeOldFiles d ccs v1 = (b2, None, v2)" by simp_all
    from td fns ls dist x y
    show "writeNewFiles writeNewHtpasswdFile d ccs v2 = (False, None, v2) \<and>
              removeOldFiles d ccs v2 = (False, None, v2)" by (rule sync_htpasswd_again)
  qed
  show ?thesis
    apply (intro conjI)
          apply (rule r1)
         apply (rule r2)
        apply (rule r3)
       apply (rule r4)
      apply (rule r5)
     apply (rule one)
    apply (rule two)
    done
qed

theorem sync_idempotent_witness:
  "distinct (map Name ccsB) \<and> fileNames ccsB \<and>
   listing worldB nginxConfigDir \<and> listing worldB nginxHtpasswdDir \<and>
   writeNewFiles (writeNewConfigFile (Inr demoTemplate)) nginxConfigDir ccsB worldB =
     (True, None, worldB1) \<and>
   writeNewFiles writeNewHtpasswdFile nginxHtpasswdDir ccsB worldB1 = (True, None, worldB2) \<and>
   removeOldFiles nginxConfigDir ccsB worldB2 = (True, None, worldB3) \<and>
   removeOldFiles nginxHtpasswdDir ccsB worldB3 = (False, None, worldB3) \<and>
   writeNewFiles (writeNewConfigFile (Inr demoTemplate)) nginxConfigDir ccsB worldB3 =
     (False, None, worldB3) \<and>
   writeNewFiles writeNewHtpasswdFile nginxHtpasswdDir ccsB worldB3 = (False, None, worldB3) \<and>
   removeOldFiles nginxConfigDir ccsB worldB3 = (False, None, worldB3) \<and>
   configureAndReload (Inr demoTemplate) (Exited 0 []) ccsB worldB3 = (None, worldB3) \<and>
   targetDir nginxConfigDir \<and>
   removeOldFiles nginxConfigDir ccsB worldB1 = (True, None, worldB1r) \<and>
   writeNewFiles (writeNewConfigFile (Inr demoTemplate)) nginxConfigDir ccsB worldB1r =
     (False, None, worldB1r) \<and>
   removeOldFiles nginxConfigDir ccsB worldB1r = (False, None, worldB1r)"
proof -
  have d: "distinct (map Name ccsB)" by (simp add: ccsB_def endpoint_def)
  note t = sync_idempotent [OF d example_fileNames(1) example_listings(1) example_listings(2)
      worldB_step1 worldB_step2 worldB_step3 worldB_step4, of "Exited 0 []"]
  from t have again: "writeNewFiles (writeNewConfigFile (Inr demoTemplate)) nginxConfigDir ccsB worldB3 =
          (False, None, worldB3) \<and>
       writeNewFiles writeNewHtpasswdFile nginxHtpasswdDir ccsB worldB3 = (False, None, worldB3) \<and>
       removeOldFiles nginxConfigDir ccsB worldB3 = (False, None, worldB3) \<and>
       configureAndReload (Inr demoTemplate) (Exited 0 []) ccsB worldB3 = (None, worldB3)"
    by simp
  from t have "\<forall>d v b1 v1 b2 v2.
            targetDir d \<and> listing v d \<and>
            writeNewFiles (writeNewConfigFile (Inr demoTemplate)) d ccsB v = (b1, None, v1) \<and>
            removeOldFiles d ccsB v1 = (b2, None, v2) \<longrightarrow>
              writeNewFiles (writeNewConfigFile (Inr demoTemplate)) d ccsB v2 = (False, None, v2) \<and>
              removeOldFiles d ccsB v2 = (False, None, v2)"
    by (elim conjE)
  then have "targetDir nginxConfigDir \<and> listing worldB nginxConfigDir \<and>
          writeNewFiles (writeNewConfigFile (Inr demoTemplate)) nginxConfigDir ccsB worldB =
            (True, None, worldB1) \<and>
          removeOldFiles nginxConfigDir ccsB worldB1 = (True, None, worldB1r) \<longrightarrow>
       writeNewFiles (writeNewConfigFile (Inr demoTemplate)) nginxConfigDir ccsB worldB1r =
          (False, None, worldB1r) \<and>
       removeOldFiles nginxConfigDir ccsB worldB1r = (False, None, worldB1r)"
    by (elim allE)
  with worldB_step1 worldB_clean targetDirs(1) example_listings(1)
  have one: "writeNewFiles (writeNewConfigFile (Inr demoTemplate)) nginxConfigDir ccsB worldB1r =
          (False, None, worldB1r) \<and>
        removeOldFiles nginxConfigDir ccsB worldB1r = (False, None, worldB1r)"
    by simp
  from again one d example_fileNames(1) example_listings(1) example_listings(2) targetDirs(1)
    worldB_step1 worldB_step2 worldB_step3 worldB_step4 worldB_clean
  show ?thesis by simp
qed

text \<open>
  C2. Reload gating, as the code has it. Name the results of the four steps of a cycle,
  each run on the world the step before it left. If a step returns an error, the cycle
  returns the error of the first such step at once: its result is that error and the
  world which that step left, so that no later step has run and the reload command has
  not, whatever the earlier steps reported. If no step returns an error, the cycle runs
  the reload command, and returns what it returns, when at least one step reported
  \<open>changed = true\<close>, and returns \<^verbatim>\<open>nil\<close> without running it when all report
  \<open>changed = false\<close>. The steps themselves never run the command. So the cycle runs the
  reload command once if all four steps returned without error and at least one of them
  reported \<open>changed = true\<close>, and not at all otherwise.
\<close>

theorem reload_gating:
  assumes s1: "writeNewFiles (writeNewConfigFile parsed) nginxConfigDir ccs w = (c1, e1, w1)"
    and s2: "writeNewFiles writeNewHtpasswdFile nginxHtpasswdDir ccs w1 = (c2, e2, w2)"
    and s3: "removeOldFiles nginxConfigDir ccs w2 = (c3, e3, w3)"
    and s4: "removeOldFiles nginxHtpasswdDir ccs w3 = (c4, e4, w4)"
  shows "configureAndReload parsed run ccs w =
           (if e1 \<noteq> None then (e1, w1)
            else if e2 \<noteq> None then (e2, w2)
            else if e3 \<noteq> None then (e3, w3)
            else if e4 \<noteq> None then (e4, w4)
            else if c1 \<or> c2 \<or> c3 \<or> c4 then reloadNginxConfiguration run w4
            else (None, w4)) \<and>
         reloads w1 = reloads w \<and> reloads w2 = reloads w1 \<and>
         reloads w3 = reloads w2 \<and> reloads w4 = reloads w3 \<and>
         reloads (snd (reloadNginxConfiguration run w4)) = reloads w4 + 1 \<and>
         reloads (snd (configureAndReload parsed run ccs w)) =
           reloads w + (if e1 = None \<and> e2 = None \<and> e3 = None \<and> e4 = None \<and>
                           (c1 \<or> c2 \<or> c3 \<or> c4) then 1 else 0)"
proof -
  from s1 have "frame w w1 (targets nginxConfigDir (rendered parsed ccs))"
    by (rule writeNewConfigFiles_paths)
  then have t1: "reloads w1 = reloads w" by (rule frame_reloads)
  from s2 have "frame w1 w2 (targets nginxHtpasswdDir (produced htpasswdContent ccs))"
    by (rule writeNewHtpasswdFiles_paths)
  then have t2: "reloads w2 = reloads w1" by (rule frame_reloads)
  from s3 have "frame w2 w3 (targets nginxConfigDir (dirNames w2 nginxConfigDir - Name ` set ccs))"
    by (rule removeOldFiles_paths)
  then have t3: "reloads w3 = reloads w2" by (rule frame_reloads)
  from s4 have "frame w3 w4 (targets nginxHtpasswdDir (dirNames w3 nginxHtpasswdDir - Name ` set ccs))"
    by (rule removeOldFiles_paths)
  then have t4: "reloads w4 = reloads w3" by (rule frame_reloads)
  have t5: "reloads (snd (reloadNginxConfiguration run w4)) = reloads w4 + 1"
    by (rule reload_reloads)
  have main: "configureAndReload parsed run ccs w =
           (if e1 \<noteq> None then (e1, w1)
            else if e2 \<noteq> None then (e2, w2)
            else if e3 \<noteq> None then (e3, w3)
            else if e4 \<noteq> None then (e4, w4)
            else if c1 \<or> c2 \<or> c3 \<or> c4 then reloadNginxConfiguration run w4
            else (None, w4))"
  proof (cases e1)
    case (Some x)
    with s1 show ?thesis by (simp add: configureAndReload_def)
  next
    case n1: None
    show ?thesis
    proof (cases e2)
      case (Some x)
      with s1 s2 n1 show ?thesis by (simp add: configureAndReload_def)
    next
      case n2: None
      show ?thesis
      proof (cases e3)
        case (Some x)
        with s1 s2 s3 n1 n2 show ?thesis by (simp add: configureAndReload_def)
      next
        case n3: None
        show ?thesis
        proof (cases e4)
          case (Some x)
          with s1 s2 s3 s4 n1 n2 n3 show ?thesis by (simp add: configureAndReload_def)
        next
          case n4: None
          with s1 s2 s3 s4 n1 n2 n3 show ?thesis by (simp add: configureAndReload_def)
        qed
      qed
    qed
  qed
  have cnt: "reloads (snd (configureAndReload parsed run ccs w)) =
           reloads w + (if e1 = None \<and> e2 = None \<and> e3 = None \<and> e4 = None \<and>
                           (c1 \<or> c2 \<or> c3 \<or> c4) then 1 else 0)"
    unfolding main using t1 t2 t3 t4 t5 by simp
  from main t1 t2 t3 t4 t5 cnt show ?thesis by (intro conjI)
qed

text \<open>
  From \<open>worldB\<close> the four steps return without error and three of them report a change:
  the cycle returns what the reload command returns, and has run it once. From the world
  that this leaves, no step reports a change and the cycle returns \<^verbatim>\<open>nil\<close> without
  running it. From \<open>worldC\<close> the first step reports a change and the second returns an
  error: the cycle returns that error and the world the second step left.
\<close>

theorem reload_gating_witness:
  "writeNewFiles (writeNewConfigFile (Inr demoTemplate)) nginxConfigDir ccsB worldB =
     (True, None, worldB1) \<and>
   writeNewFiles writeNewHtpasswdFile nginxHtpasswdDir ccsB worldB1 = (True, None, worldB2) \<and>
   removeOldFiles nginxConfigDir ccsB worldB2 = (True, None, worldB3) \<and>
   removeOldFiles nginxHtpasswdDir ccsB worldB3 = (False, None, worldB3) \<and>
   reloads worldB = 0 \<and>
   configureAndReload (Inr demoTemplate) (Exited 0 []) ccsB worldB =
     reloadNginxConfiguration (Exited 0 []) worldB3 \<and>
   reloads (snd (configureAndReload (Inr demoTemplate) (Exited 0 []) ccsB worldB)) = 1 \<and>
   reloads worldB3 = 0 \<and>
   configureAndReload (Inr demoTemplate) (Exited 0 []) ccsB worldB3 = (None, worldB3) \<and>
   reloads (snd (configureAndReload (Inr demoTemplate) (Exited 0 []) ccsB worldB3)) = 0 \<and>
   writeNewFiles (writeNewConfigFile (Inr demoTemplate)) nginxConfigDir
     [endpoint ''a'' ''a.com'' []] worldC = (True, None, worldC1) \<and>
   writeNewFiles writeNewHtpasswdFile nginxHtpasswdDir [endpoint ''a'' ''a.com'' []] worldC1 =
     (False, Some EACCES, worldC2) \<and>
   configureAndReload (Inr demoTemplate) (Exited 0 []) [endpoint ''a'' ''a.com'' []] worldC =
     (Some EACCES, worldC2) \<and>
   reloads worldC = 0 \<and>
   reloads (snd (configureAndReload (Inr demoTemplate) (Exited 0 []) [endpoint ''a'' ''a.com'' []]
     worldC)) = 0"
proof -
  have a: "reloads worldB = 0" and b: "reloads worldB3 = 0" and z: "reloads worldC = 0"
    by (simp_all add: reloads_def worldB_def worldB3_def worldC_def)
  note t1 = reload_gating [OF worldB_step1 worldB_step2 worldB_step3 worldB_step4, of "Exited 0 []"]
  from t1 a
  have c: "configureAndReload (Inr demoTemplate) (Exited 0 []) ccsB worldB =
             reloadNginxConfiguration (Exited 0 []) worldB3 \<and>
           reloads (snd (configureAndReload (Inr demoTemplate) (Exited 0 []) ccsB worldB)) = 1"
    by simp
  note t2 = reload_gating [OF worldB3_again(1) worldB3_again(2) worldB3_again(3) worldB_step4,
      of "Exited 0 []"]
  from t2 b
  have e: "configureAndReload (Inr demoTemplate) (Exited 0 []) ccsB worldB3 = (None, worldB3) \<and>
           reloads (snd (configureAndReload (Inr demoTemplate) (Exited 0 []) ccsB worldB3)) = 0"
    by simp
  define r3 where "r3 = removeOldFiles nginxConfigDir [endpoint ''a'' ''a.com'' []] worldC2"
  define r4 where "r4 = removeOldFiles nginxHtpasswdDir [endpoint ''a'' ''a.com'' []] (snd (snd r3))"
  have h3: "removeOldFiles nginxConfigDir [endpoint ''a'' ''a.com'' []] worldC2 =
      (fst r3, fst (snd r3), snd (snd r3))" by (simp add: r3_def)
  have h4: "removeOldFiles nginxHtpasswdDir [endpoint ''a'' ''a.com'' []] (snd (snd r3)) =
      (fst r4, fst (snd r4), snd (snd r4))" by (simp add: r4_def)
  note t3 = reload_gating [OF worldC_cycle(1) worldC_cycle(2) h3 h4, of "Exited 0 []"]
  from t3 z
  have f: "configureAndReload (Inr demoTemplate) (Exited 0 []) [endpoint ''a'' ''a.com'' []] worldC =
             (Some EACCES, worldC2) \<and>
           reloads (snd (configureAndReload (Inr demoTemplate) (Exited 0 []) [endpoint ''a'' ''a.com'' []]
             worldC)) = 0"
    by simp
  from a b z c e f worldB_step1 worldB_step2 worldB_step3 worldB_step4 worldC_cycle(1) worldC_cycle(2)
  show ?thesis by blast
qed

text \<open>
  Against C2 as stated: in \<open>worldC\<close> the first step writes the configuration file of
  \<open>a\<close> and reports \<open>changed = true\<close>; creating the credentials directory then fails,
  the cycle returns that error, and the reload command is not run.
\<close>

theorem reload_gating_counterexample:
  "fst (writeNewFiles (writeNewConfigFile (Inr demoTemplate)) nginxConfigDir
         [endpoint ''a'' ''a.com'' []] worldC) = True \<and>
   fst (configureAndReload (Inr demoTemplate) (Exited 0 []) [endpoint ''a'' ''a.com'' []] worldC)
     = Some EACCES \<and>
   reloads (snd (configureAndReload (Inr demoTemplate) (Exited 0 []) [endpoint ''a'' ''a.com'' []]
     worldC)) = 0 \<and>
   trace (snd (configureAndReload (Inr demoTemplate) (Exited 0 []) [endpoint ''a'' ''a.com'' []]
     worldC)) =
     [SysMkdir nginxConfigDir, SysWrite (nginxConfigDir, ''a'') ''server a.com 172.17.0.2:8080'',
      SysMkdir nginxHtpasswdDir]"
  by (simp add: worldC_cycle reloads_def worldC2_def)

text \<open>
  C3. \<^verbatim>\<open>reloadNginxConfiguration\<close> returns \<^verbatim>\<open>nil\<close> exactly when the command exited with
  code zero and its combined output does not contain the marker \<^verbatim>\<open>fail\<close>; in particular
  an exit with code zero whose output contains the marker gives an error. (\<open>Contains\<close> is
  the test for a contiguous substring: lemma \<open>Contains_iff\<close>.)
\<close>

theorem reload_succeeds_iff:
  "((fst (reloadNginxConfiguration run w) = None) =
      (\<exists>out. run = Exited 0 out \<and> \<not> Contains out ''fail'')) \<and>
   (\<forall>out. Contains out ''fail'' \<longrightarrow>
      fst (reloadNginxConfiguration (Exited 0 out) w) = Some FailedToReload)"
  by (cases run) (auto simp: reloadNginxConfiguration_def CombinedOutput_def)

theorem reload_succeeds_iff_witness:
  "Contains ''nginx: reload failed'' ''fail'' \<and>
   fst (reloadNginxConfiguration (Exited 0 ''nginx: reload failed'') world0) = Some FailedToReload \<and>
   fst (reloadNginxConfiguration (Exited 0 ''ok'') world0) = None \<and>
   fst (reloadNginxConfiguration (Exited 1 ''ok'') world0) \<noteq> None"
proof -
  have c: "Contains ''nginx: reload failed'' ''fail''" by simp
  have a: "fst (reloadNginxConfiguration (Exited 0 ''nginx: reload failed'') world0) = Some FailedToReload"
    using reload_succeeds_iff [of "Exited 0 ''nginx: reload failed''" world0] c by blast
  have b: "fst (reloadNginxConfiguration (Exited 0 ''ok'') world0) = None"
    using reload_succeeds_iff [of "Exited 0 ''ok''" world0] by simp
  have d: "fst (reloadNginxConfiguration (Exited 1 ''ok'') world0) \<noteq> None"
    using reload_succeeds_iff [of "Exited 1 ''ok''" world0] by simp
  from c a b d show ?thesis by blast
qed

text \<open>
  C4. Garbage collection, as the code has it, in either of the two directories, whose
  entries have the names of files. Whenever \<^verbatim>\<open>removeOldFiles\<close> returns without
  error, the directory is what it was restricted to the names of the current endpoints:
  every entry whose name matches no endpoint is gone, every other entry is as before, and
  \<open>changed\<close> tells whether there was an entry to remove. With or without an error, no
  entry whose name is a current endpoint's is removed or altered. After an error-free
  sync of one directory (\<^verbatim>\<open>writeNewFiles\<close>, then \<^verbatim>\<open>removeOldFiles\<close>) with endpoints
  whose names are names of files, the names in the
  directory are the old names that match an endpoint together with the names of the
  endpoints for which the writer produced an artifact: those the template renders, for
  the configuration writer; those with credentials, for the credentials writer.
\<close>

theorem gc_correct:
  "(targetDir d \<and> listing w d \<and> removeOldFiles d ccs w = (ch, None, w') \<longrightarrow>
      (\<forall>n. entryAt w' (d, n) = (if n \<in> Name ` set ccs then entryAt w (d, n) else None)) \<and>
      ch = (\<exists>n\<in>dirNames w d. n \<notin> Name ` set ccs)) \<and>
   (targetDir d \<and> listing w d \<and> removeOldFiles d ccs w = (ch, e, w') \<longrightarrow>
      (\<forall>n\<in>Name ` set ccs. entryAt w' (d, n) = entryAt w (d, n))) \<and>
   (targetDir d \<and> fileNames ccs \<and> listing v d \<and>
    writeNewFiles (writeNewConfigFile (Inr t)) d ccs v = (c1, None, v1) \<and>
    removeOldFiles d ccs v1 = (c2, None, v2) \<longrightarrow>
      dirNames v2 d = (dirNames v d \<inter> Name ` set ccs) \<union> produced t ccs) \<and>
   (targetDir d \<and> fileNames ccs \<and> listing v d \<and>
    writeNewFiles writeNewHtpasswdFile d ccs v = (c1, None, v1) \<and>
    removeOldFiles d ccs v1 = (c2, None, v2) \<longrightarrow>
      dirNames v2 d = (dirNames v d \<inter> Name ` set ccs) \<union> produced htpasswdContent ccs)"
proof (intro conjI impI)
  assume a: "targetDir d \<and> listing w d \<and> removeOldFiles d ccs w = (ch, None, w')"
  then have td: "targetDir d" and ls: "listing w d"
    and r: "removeOldFiles d ccs w = (ch, None, w')" by simp_all
  from removeOldFiles_after [OF td ls r]
  show "\<forall>n. entryAt w' (d, n) = (if n \<in> Name ` set ccs then entryAt w (d, n) else None)"
    by blast
  from removeOldFiles_after [OF td ls r]
  show "ch = (\<exists>n\<in>dirNames w d. n \<notin> Name ` set ccs)"
    by (auto simp: dirNames_entryAt)
next
  assume a: "targetDir d \<and> listing w d \<and> removeOldFiles d ccs w = (ch, e, w')"
  then have td: "targetDir d" and ls: "listing w d"
    and r: "removeOldFiles d ccs w = (ch, e, w')" by simp_all
  from td ls r have fr: "frame w w' ({d} \<times> (- Name ` set ccs))" by (rule removeOldFiles_frame)
  show "\<forall>n\<in>Name ` set ccs. entryAt w' (d, n) = entryAt w (d, n)"
  proof
    fix n assume "n \<in> Name ` set ccs"
    then have "(d, n) \<notin> {d} \<times> (- Name ` set ccs)" by simp
    with fr show "entryAt w' (d, n) = entryAt w (d, n)" by (rule frame_entryAt)
  qed
next
  assume a: "targetDir d \<and> fileNames ccs \<and> listing v d \<and>
    writeNewFiles (writeNewConfigFile (Inr t)) d ccs v = (c1, None, v1) \<and>
    removeOldFiles d ccs v1 = (c2, None, v2)"
  then have td: "targetDir d" and fns: "fileNames ccs" and ls: "listing v d"
    and x: "writeNewFiles (artifact t) d ccs v = (c1, None, v1)"
    and y: "removeOldFiles d ccs v1 = (c2, None, v2)"
    by (simp_all add: writeNewConfigFile_artifact)
  from td fns ls x y
  show "dirNames v2 d = (dirNames v d \<inter> Name ` set ccs) \<union> produced t ccs"
    by (rule sync_names)
next
  assume a: "targetDir d \<and> fileNames ccs \<and> listing v d \<and>
    writeNewFiles writeNewHtpasswdFile d ccs v = (c1, None, v1) \<and>
    removeOldFiles d ccs v1 = (c2, None, v2)"
  then have td: "targetDir d" and fns: "fileNames ccs" and ls: "listing v d"
    and x: "writeNewFiles (artifact htpasswdContent) d ccs v = (c1, None, v1)"
    and y: "removeOldFiles d ccs v1 = (c2, None, v2)"
    by (simp_all add: writeNewHtpasswdFile_artifact)
  from td fns ls x y
  show "dirNames v2 d = (dirNames v d \<inter> Name ` set ccs) \<union> produced htpasswdContent ccs"
    by (rule sync_names)
qed

text \<open>
  The configuration directory of \<open>worldB\<close> holds \<open>a\<close>, \<open>b\<close>, \<open>c\<close>; with the endpoints
  \<open>b\<close> and \<open>d\<close>, both rendered, it holds exactly \<open>b\<close> and \<open>d\<close> after the sync, and \<open>b\<close>
  is the entry it was.
\<close>

theorem gc_correct_witness:
  "targetDir nginxConfigDir \<and> fileNames ccsB \<and>
   listing worldB nginxConfigDir \<and> listing worldB1 nginxConfigDir \<and>
   writeNewFiles (writeNewConfigFile (Inr demoTemplate)) nginxConfigDir ccsB worldB =
     (True, None, worldB1) \<and>
   removeOldFiles nginxConfigDir ccsB worldB1 = (True, None, worldB1r) \<and>
   dirNames worldB nginxConfigDir = {''a'', ''b'', ''c''} \<and>
   Name ` set ccsB = {''b'', ''d''} \<and>
   produced demoTemplate ccsB = {''b'', ''d''} \<and>
   dirNames worldB1r nginxConfigDir = {''b'', ''d''} \<and>
   entryAt worldB1r (nginxConfigDir, ''a'') = None \<and>
   entryAt worldB1r (nginxConfigDir, ''b'') = entryAt worldB1 (nginxConfigDir, ''b'')"
proof -
  have n: "dirNames worldB nginxConfigDir = {''a'', ''b'', ''c''}"
    by (simp add: dirNames_def worldB_def plainDir_def)
  have m: "Name ` set ccsB = {''b'', ''d''}" by (simp add: ccsB_def endpoint_def)
  have p: "produced demoTemplate ccsB = {''b'', ''d''}"
    by (simp add: produced_def ccsB_def endpoint_def demoTemplate_def)
  note k = targetDirs(1) example_fileNames(1) example_listings(1) example_listings(3)
  note g = gc_correct [of nginxConfigDir worldB1 ccsB True worldB1r None worldB demoTemplate
      True worldB1 True worldB1r]
  from g k worldB_step1 worldB_clean n m p
  have s: "dirNames worldB1r nginxConfigDir = {''b'', ''d''}" by auto
  from g k worldB_clean m have a: "entryAt worldB1r (nginxConfigDir, ''a'') = None" by simp
  from g k worldB_clean m
  have b: "entryAt worldB1r (nginxConfigDir, ''b'') = entryAt worldB1 (nginxConfigDir, ''b'')"
    by simp
  from k worldB_step1 worldB_clean n m p s a b show ?thesis by simp
qed

text \<open>
  Against C4 as stated: the credentials directory of \<open>worldH\<close> holds \<open>a\<close>, \<open>b\<close>, \<open>c\<close>
  and the endpoints are \<open>b\<close> and \<open>d\<close>, neither with credentials. The sync returns
  without error and leaves exactly \<open>b\<close>: nothing is written for \<open>d\<close>. And in
  \<open>worldE\<close>, with no endpoint at all, \<^verbatim>\<open>removeOldFiles\<close> returns the error of the
  first removal and \<open>z\<close> is still there.
\<close>

theorem gc_correct_counterexample:
  "fst (snd (writeNewFiles writeNewHtpasswdFile nginxHtpasswdDir ccsH worldH)) = None \<and>
   fst (snd (removeOldFiles nginxHtpasswdDir ccsH
     (snd (snd (writeNewFiles writeNewHtpasswdFile nginxHtpasswdDir ccsH worldH))))) = None \<and>
   dirNames worldH nginxHtpasswdDir = {''a'', ''b'', ''c''} \<and>
   map Name ccsH = [''b'', ''d''] \<and>
   dirNames (snd (snd (removeOldFiles nginxHtpasswdDir ccsH
     (snd (snd (writeNewFiles writeNewHtpasswdFile nginxHtpasswdDir ccsH worldH))))))
     nginxHtpasswdDir = {''b''} \<and>
   dirNames (snd (snd (removeOldFiles nginxHtpasswdDir ccsH
     (snd (snd (writeNewFiles writeNewHtpasswdFile nginxHtpasswdDir ccsH worldH))))))
     nginxHtpasswdDir \<noteq> {''b'', ''d''} \<and>
   fst (snd (removeOldFiles nginxHtpasswdDir [] worldE)) = Some EACCES \<and>
   entryAt (snd (snd (removeOldFiles nginxHtpasswdDir [] worldE))) (nginxHtpasswdDir, ''z'') =
     Some (File ''q'' True True)"
proof -
  have "dirNames worldH nginxHtpasswdDir = {''a'', ''b'', ''c''}"
    by (simp add: dirNames_def worldH_def plainDir_def)
  moreover have "map Name ccsH = [''b'', ''d'']" by (simp add: ccsH_def endpoint_def)
  moreover have "entryAt (worldE\<lparr>trace := [SysRemove (nginxHtpasswdDir, ''y'')]\<rparr>)
      (nginxHtpasswdDir, ''z'') = Some (File ''q'' True True)"
    by (simp add: entryAt_def worldE_def)
  ultimately show ?thesis by (simp add: worldH_sync worldE_remove dirNames_def plainDir_def)
qed

text \<open>
  C5. Port resolution. For a container that was inspected, has a name and has
  \<^verbatim>\<open>VIRTUAL_HOST\<close>: when \<^verbatim>\<open>VIRTUAL_PORT\<close> is set, the endpoint is produced with that value
  as its port; when it is not set and the container exposes exactly one port, the
  endpoint is produced with that port (the part of the key before the slash); when it is
  not set and the container exposes no port or more than one, the loop continues without
  an endpoint for the container.
\<close>

theorem port_resolution:
  assumes "InspectContainer client (ID ac) = Inr c" and "Names ac \<noteq> []"
    and "Env c ''VIRTUAL_HOST'' = Some h"
  shows "(\<forall>p. Env c ''VIRTUAL_PORT'' = Some p \<longrightarrow>
            (\<exists>cc. toEndpoint client um w ac = Return (Some cc) \<and> ContainerPort cc = p)) \<and>
         (\<forall>k. Env c ''VIRTUAL_PORT'' = None \<and> Ports c = [k] \<longrightarrow>
            (\<exists>cc. toEndpoint client um w ac = Return (Some cc) \<and> ContainerPort cc = Port k)) \<and>
         (Env c ''VIRTUAL_PORT'' = None \<and> length (Ports c) \<noteq> 1 \<longrightarrow>
            toEndpoint client um w ac = Return None)"
proof -
  from assms(2) obtain name0 others where n: "Names ac = name0 # others"
    by (cases "Names ac") auto
  note eq = toEndpoint_inspected [OF assms(1) n, of um w]
  have a: "resolvePort c = Some p" if "Env c ''VIRTUAL_PORT'' = Some p" for p
    using that by (simp add: resolvePort_def)
  have b: "resolvePort c = Some (Port k)" if "Env c ''VIRTUAL_PORT'' = None \<and> Ports c = [k]" for k
    using that by (simp add: resolvePort_def)
  have c: "resolvePort c = None" if "Env c ''VIRTUAL_PORT'' = None \<and> length (Ports c) \<noteq> 1"
  proof (cases "Ports c")
    case Nil
    with that show ?thesis by (simp add: resolvePort_def)
  next
    case (Cons k ks)
    with that show ?thesis by (cases ks) (simp_all add: resolvePort_def)
  qed
  from a b c show ?thesis by (simp add: eq assms(3))
qed

theorem port_resolution_witness:
  "InspectContainer clientD (ID acWeb2) = Inr cWeb2 \<and> Env cWeb2 ''VIRTUAL_PORT'' = Some ''9000'' \<and>
   (\<exists>cc. toEndpoint clientD noJSON world0 acWeb2 = Return (Some cc) \<and> ContainerPort cc = ''9000'') \<and>
   InspectContainer clientD (ID acWeb1) = Inr cWeb1 \<and> Env cWeb1 ''VIRTUAL_PORT'' = None \<and>
   Ports cWeb1 = [''8080/tcp''] \<and>
   (\<exists>cc. toEndpoint clientD noJSON world0 acWeb1 = Return (Some cc) \<and> ContainerPort cc = ''8080'') \<and>
   InspectContainer clientD (ID acWeb3) = Inr cWeb3 \<and> Env cWeb3 ''VIRTUAL_PORT'' = None \<and>
   length (Ports cWeb3) = 2 \<and>
   toEndpoint clientD noJSON world0 acWeb3 = Return None"
proof -
  have i2: "InspectContainer clientD (ID acWeb2) = Inr cWeb2"
    and i1: "InspectContainer clientD (ID acWeb1) = Inr cWeb1"
    and i3: "InspectContainer clientD (ID acWeb3) = Inr cWeb3"
    by (simp_all add: docker_defs)
  have n2: "Names acWeb2 \<noteq> []" and n1: "Names acWeb1 \<noteq> []" and n3: "Names acWeb3 \<noteq> []"
    by (simp_all add: docker_defs)
  have h2: "Env cWeb2 ''VIRTUAL_HOST'' = Some ''b.com''"
    and h1: "Env cWeb1 ''VIRTUAL_HOST'' = Some ''a.com''"
    and h3: "Env cWeb3 ''VIRTUAL_HOST'' = Some ''c.com''"
    by (simp_all add: docker_defs)
  have p2: "Env cWeb2 ''VIRTUAL_PORT'' = Some ''9000''"
    and p1: "Env cWeb1 ''VIRTUAL_PORT'' = None \<and> Ports cWeb1 = [''8080/tcp'']"
    and p3: "Env cWeb3 ''VIRTUAL_PORT'' = None \<and> length (Ports cWeb3) = 2"
    by (simp_all add: docker_defs)
  from port_resolution [OF i2 n2 h2, of noJSON world0] p2
  have a: "\<exists>cc. toEndpoint clientD noJSON world0 acWeb2 = Return (Some cc) \<and> ContainerPort cc = ''9000''"
    by blast
  from port_resolution [OF i1 n1 h1, of noJSON world0] p1
  have "\<exists>cc. toEndpoint clientD noJSON world0 acWeb1 = Return (Some cc) \<and>
          ContainerPort cc = Port ''8080/tcp''"
    by blast
  then have b: "\<exists>cc. toEndpoint clientD noJSON world0 acWeb1 = Return (Some cc) \<and>
          ContainerPort cc = ''8080''"
    by (simp add: Port_def)
  from port_resolution [OF i3 n3 h3, of noJSON world0] p3
  have c: "toEndpoint clientD noJSON world0 acWeb3 = Return None" by simp
  from i1 i2 i3 p1 p2 p3 a b c show ?thesis by simp
qed



text \<open>
  C7. When executing the template on an endpoint fails, \<^verbatim>\<open>writeNewConfigFile\<close> returns
  \<open>(false, nil)\<close> and leaves the world as it was: no file is written or modified and no
  system call is issued. The loop of \<^verbatim>\<open>writeNewFiles\<close> goes on with the remaining
  endpoints as if the endpoint were not there. In a whole cycle over endpoints with
  pairwise distinct names that are names of files, in a world in which the entries of
  the two directories have the names of files, the entry of that endpoint's name in the
  configuration directory stays what it was: nothing is written for it and it is not
  removed.
\<close>

theorem render_failure_skips:
  assumes "nginxTemplate cc = None"
  shows "writeNewConfigFile (Inr nginxTemplate) d cc w = (False, None, w) \<and>
     writeEach (writeNewConfigFile (Inr nginxTemplate)) d (cc # ccs) wroteFiles w =
       writeEach (writeNewConfigFile (Inr nginxTemplate)) d ccs wroteFiles w \<and>
     (distinct (map Name cs) \<and> fileNames cs \<and>
      listing w nginxConfigDir \<and> listing w nginxHtpasswdDir \<and> cc \<in> set cs \<longrightarrow>
        entryAt (snd (configureAndReload (Inr nginxTemplate) run cs w)) (nginxConfigDir, Name cc) =
          entryAt w (nginxConfigDir, Name cc))"
proof -
  have "entryAt (snd (configureAndReload (Inr nginxTemplate) run cs w)) (nginxConfigDir, Name cc) =
          entryAt w (nginxConfigDir, Name cc)"
    if d: "distinct (map Name cs)" and fns: "fileNames cs"
      and lc: "listing w nginxConfigDir" and lh: "listing w nginxHtpasswdDir"
      and m: "cc \<in> set cs"
  proof -
    have "Name cc \<notin> produced nginxTemplate cs"
    proof
      assume "Name cc \<in> produced nginxTemplate cs"
      then obtain c where c: "c \<in> set cs" "Name c = Name cc" "nginxTemplate c \<noteq> None"
        by (auto simp: produced_def)
      from d have "inj_on Name (set cs)" by (simp add: distinct_map)
      with c(1,2) m have "c = cc" by (auto dest: inj_onD)
      with c(3) assms show False by simp
    qed
    with m dirs_distinct
    have "(nginxConfigDir, Name cc) \<notin>
          {nginxConfigDir} \<times> (rendered (Inr nginxTemplate) cs \<union> - Name ` set cs) \<union>
          {nginxHtpasswdDir} \<times> (produced htpasswdContent cs \<union> - Name ` set cs)"
      by (auto simp: rendered_def)
    with fns lc lh show ?thesis by (rule cycle_entryAt)
  qed
  with assms show ?thesis by (simp add: writeNewConfigFile_def)
qed

theorem render_failure_skips_witness:
  "demoTemplate (endpoint ''a'' [] []) = None \<and>
   writeNewConfigFile (Inr demoTemplate) nginxConfigDir (endpoint ''a'' [] []) worldB =
     (False, None, worldB) \<and>
   writeEach (writeNewConfigFile (Inr demoTemplate)) nginxConfigDir
       [endpoint ''a'' [] [], endpoint ''b'' ''b.com'' []] False worldB =
     writeEach (writeNewConfigFile (Inr demoTemplate)) nginxConfigDir
       [endpoint ''b'' ''b.com'' []] False worldB \<and>
   distinct (map Name [endpoint ''a'' [] [], endpoint ''b'' ''b.com'' []]) \<and>
   fileNames [endpoint ''a'' [] [], endpoint ''b'' ''b.com'' []] \<and>
   listing worldB nginxConfigDir \<and> listing worldB nginxHtpasswdDir \<and>
   entryAt worldB (nginxConfigDir, ''a'') = Some (File ''stale'' True True) \<and>
   entryAt (snd (configureAndReload (Inr demoTemplate) (Exited 0 [])
       [endpoint ''a'' [] [], endpoint ''b'' ''b.com'' []] worldB)) (nginxConfigDir, ''a'') =
     Some (File ''stale'' True True)"
proof -
  have h: "demoTemplate (endpoint ''a'' [] []) = None"
    by (simp add: demoTemplate_def endpoint_def)
  have d: "distinct (map Name [endpoint ''a'' [] [], endpoint ''b'' ''b.com'' []])"
    by (simp add: endpoint_def)
  have n: "Name (endpoint ''a'' [] []) = ''a''" by (simp add: endpoint_def)
  have e: "entryAt worldB (nginxConfigDir, ''a'') = Some (File ''stale'' True True)"
    by (simp add: entryAt_def worldB_def plainDir_def)
  note t = render_failure_skips [where nginxTemplate = demoTemplate
      and cc = "endpoint ''a'' [] []" and d = nginxConfigDir and w = worldB
      and ccs = "[endpoint ''b'' ''b.com'' []]" and wroteFiles = False
      and cs = "[endpoint ''a'' [] [], endpoint ''b'' ''b.com'' []]" and run = "Exited 0 []", OF h]
  note k = example_fileNames(3) example_listings(1) example_listings(2)
  from t d k n e
  have "entryAt (snd (configureAndReload (Inr demoTemplate) (Exited 0 [])
       [endpoint ''a'' [] [], endpoint ''b'' ''b.com'' []] worldB)) (nginxConfigDir, ''a'') =
     Some (File ''stale'' True True)" by simp
  with t h d k e show ?thesis by blast
qed

text \<open>
  C8. Inventory error containment. \<^verbatim>\<open>getExistingContainers\<close> returns an error exactly
  when the list call fails, and it is the error of that call. A listed container whose inspection fails contributes no
  endpoint, and the call returns what it returns when that container is not listed at
  all. When every listed container has a name, the call succeeds with the endpoints of
  the listed containers, in order.
\<close>

theorem inventory_error_containment:
  "(\<forall>e. (getExistingContainers client um w = Return (Inl e)) = (ListContainers client = Inl e)) \<and>
   (\<forall>pre ac post e. ListContainers client = Inr (pre @ ac # post) \<and>
        InspectContainer client (ID ac) = Inl e \<longrightarrow>
      endpointOf client um w ac = None \<and>
      getExistingContainers client um w =
        getExistingContainers (client\<lparr>ListContainers := Inr (pre @ post)\<rparr>) um w) \<and>
   (\<forall>acs. ListContainers client = Inr acs \<and> (\<forall>ac\<in>set acs. Names ac \<noteq> []) \<longrightarrow>
      getExistingContainers client um w =
        Return (Inr (List.map_filter (endpointOf client um w) acs)))"
proof (intro conjI allI impI)
  fix e
  show "(getExistingContainers client um w = Return (Inl e)) = (ListContainers client = Inl e)"
  proof (cases "ListContainers client")
    case (Inl e)
    then show ?thesis by (simp add: getExistingContainers_def)
  next
    case (Inr acs)
    then show ?thesis
      by (cases "inspectEach client um w acs []") (simp_all add: getExistingContainers_def)
  qed
next
  fix pre post e and ac :: apiContainer
  assume a: "ListContainers client = Inr (pre @ ac # post) \<and> InspectContainer client (ID ac) = Inl e"
  then have skip: "toEndpoint client um w ac = Return None" by (simp add: toEndpoint_inspect_failed)
  then show "endpointOf client um w ac = None" by (simp add: endpointOf_def)
  have "inspectEach client um w (pre @ ac # post) [] = inspectEach client um w (pre @ post) []"
    by (simp add: inspectEach_append skip split: outcome.splits)
  moreover have "inspectEach (client\<lparr>ListContainers := Inr (pre @ post)\<rparr>) um w (pre @ post) [] =
      inspectEach client um w (pre @ post) []"
    by (rule inspectEach_client_cong) simp
  ultimately show "getExistingContainers client um w =
        getExistingContainers (client\<lparr>ListContainers := Inr (pre @ post)\<rparr>) um w"
    using a by (simp add: getExistingContainers_def)
next
  fix acs
  assume a: "ListContainers client = Inr acs \<and> (\<forall>ac\<in>set acs. Names ac \<noteq> [])"
  then have "inspectEach client um w acs [] = Return ([] @ List.map_filter (endpointOf client um w) acs)"
    by (intro inspectEach_total) simp
  with a show "getExistingContainers client um w =
        Return (Inr (List.map_filter (endpointOf client um w) acs))"
    by (simp add: getExistingContainers_def)
qed

theorem inventory_error_containment_witness:
  "ListContainers clientD = Inr ([acWeb1] @ acGone # [acWeb2, acWeb3]) \<and>
   InspectContainer clientD (ID acGone) = Inl (DockerError ''no such container'') \<and>
   endpointOf clientD noJSON world0 acGone = None \<and>
   getExistingContainers clientD noJSON world0 =
     getExistingContainers (clientD\<lparr>ListContainers := Inr ([acWeb1] @ [acWeb2, acWeb3])\<rparr>)
       noJSON world0 \<and>
   getExistingContainers clientD noJSON world0 =
     Return (Inr (List.map_filter (endpointOf clientD noJSON world0)
       [acWeb1, acGone, acWeb2, acWeb3])) \<and>
   ListContainers clientDown = Inl (DockerError ''cannot connect'') \<and>
   getExistingContainers clientDown noJSON world0 = Return (Inl (DockerError ''cannot connect''))"
proof -
  have l: "ListContainers clientD = Inr ([acWeb1] @ acGone # [acWeb2, acWeb3])"
    by (simp add: docker_defs)
  have i: "InspectContainer clientD (ID acGone) = Inl (DockerError ''no such container'')"
    by (simp add: docker_defs)
  have n: "\<forall>ac\<in>set [acWeb1, acGone, acWeb2, acWeb3]. Names ac \<noteq> []"
    by (simp add: docker_defs)
  have d: "ListContainers clientDown = Inl (DockerError ''cannot connect'')"
    by (simp add: docker_defs)
  note t = inventory_error_containment [of clientD noJSON world0]
  from t l i have a: "endpointOf clientD noJSON world0 acGone = None \<and>
     getExistingContainers clientD noJSON world0 =
       getExistingContainers (clientD\<lparr>ListContainers := Inr ([acWeb1] @ [acWeb2, acWeb3])\<rparr>)
         noJSON world0"
    by blast
  from l have l': "ListContainers clientD = Inr [acWeb1, acGone, acWeb2, acWeb3]" by simp
  from t l' n have b: "getExistingContainers clientD noJSON world0 =
     Return (Inr (List.map_filter (endpointOf clientD noJSON world0)
       [acWeb1, acGone, acWeb2, acWeb3]))"
    by blast
  from inventory_error_containment [of clientDown noJSON world0] d
  have c: "getExistingContainers clientDown noJSON world0 =
      Return (Inl (DockerError ''cannot connect''))" by blast
  from l i a b c d show ?thesis by blast
qed

text \<open>
  C9. Stale credentials persist. Take endpoints with pairwise distinct names that are
  names of files, a world in which the entries of the two directories have the names of
  files, and one of the endpoints, \<open>cc\<close>, without credentials. Then the credentials
  writer does nothing for \<open>cc\<close>,
  \<^verbatim>\<open>removeIfRedundant\<close> does not touch a file named after it, and after a whole cycle,
  however it ends, the entry of that name in the credentials directory is what it was
  before: a file that was there is there still, byte for byte.
\<close>

theorem stale_credentials_persist:
  assumes "distinct (map Name ccs)" and "fileNames ccs"
    and "listing w nginxConfigDir" and "listing w nginxHtpasswdDir"
    and "cc \<in> set ccs" and "HtpasswdEntries cc = []"
  shows "writeNewHtpasswdFile nginxHtpasswdDir cc w = (False, None, w) \<and>
         removeIfRedundant nginxHtpasswdDir (Name cc) ccs w = (False, None, w) \<and>
         entryAt (snd (configureAndReload parsed run ccs w)) (nginxHtpasswdDir, Name cc) =
           entryAt w (nginxHtpasswdDir, Name cc)"
proof -
  have "Name cc \<notin> produced htpasswdContent ccs"
  proof
    assume "Name cc \<in> produced htpasswdContent ccs"
    then obtain c where c: "c \<in> set ccs" "Name c = Name cc" "htpasswdContent c \<noteq> None"
      by (auto simp: produced_def)
    from assms(1) have "inj_on Name (set ccs)" by (simp add: distinct_map)
    with c(1,2) assms(5) have "c = cc" by (auto dest: inj_onD)
    with c(3) assms(6) show False by (simp add: htpasswdContent_def)
  qed
  with assms(5) dirs_distinct
  have "(nginxHtpasswdDir, Name cc) \<notin>
          {nginxConfigDir} \<times> (rendered parsed ccs \<union> - Name ` set ccs) \<union>
          {nginxHtpasswdDir} \<times> (produced htpasswdContent ccs \<union> - Name ` set ccs)"
    by auto
  with assms(2,3,4)
  have "entryAt (snd (configureAndReload parsed run ccs w)) (nginxHtpasswdDir, Name cc) =
           entryAt w (nginxHtpasswdDir, Name cc)" by (rule cycle_entryAt)
  moreover from assms(6) have "writeNewHtpasswdFile nginxHtpasswdDir cc w = (False, None, w)"
    by (simp add: writeNewHtpasswdFile_def)
  moreover from assms(5) have "removeIfRedundant nginxHtpasswdDir (Name cc) ccs w = (False, None, w)"
    by (simp add: removeIfRedundant_eq)
  ultimately show ?thesis by simp
qed

theorem stale_credentials_persist_witness:
  "distinct (map Name ccsH) \<and> fileNames ccsH \<and>
   listing worldH nginxConfigDir \<and> listing worldH nginxHtpasswdDir \<and>
   endpoint ''b'' ''b.com'' [] \<in> set ccsH \<and>
   HtpasswdEntries (endpoint ''b'' ''b.com'' []) = [] \<and>
   entryAt worldH (nginxHtpasswdDir, ''b'') = Some (File ''u:old'' True True) \<and>
   entryAt (snd (configureAndReload (Inr demoTemplate) (Exited 0 []) ccsH worldH))
     (nginxHtpasswdDir, ''b'') = Some (File ''u:old'' True True)"
proof -
  have d: "distinct (map Name ccsH)" by (simp add: ccsH_def endpoint_def)
  have m: "endpoint ''b'' ''b.com'' [] \<in> set ccsH" by (simp add: ccsH_def)
  have h: "HtpasswdEntries (endpoint ''b'' ''b.com'' []) = []" by (simp add: endpoint_def)
  have n: "Name (endpoint ''b'' ''b.com'' []) = ''b''" by (simp add: endpoint_def)
  have e: "entryAt worldH (nginxHtpasswdDir, ''b'') = Some (File ''u:old'' True True)"
    by (simp add: entryAt_def worldH_def plainDir_def)
  note k = example_fileNames(2) example_listings(4) example_listings(5)
  from stale_credentials_persist [OF d k m h, of "Inr demoTemplate" "Exited 0 []"] n e
  have "entryAt (snd (configureAndReload (Inr demoTemplate) (Exited 0 []) ccsH worldH))
     (nginxHtpasswdDir, ''b'') = Some (File ''u:old'' True True)" by simp
  with d k m h e show ?thesis by simp
qed

text \<open>
  C10. Whenever \<^verbatim>\<open>writeNewFiles\<close> (with any writer) or \<^verbatim>\<open>removeOldFiles\<close> returns an
  error, the flag it returns with it is \<open>false\<close>, whatever was written or removed before
  the failing step.
\<close>

theorem changed_false_on_error:
  "(fst (snd (writeNewFiles f d ccs w)) \<noteq> None \<longrightarrow> fst (writeNewFiles f d ccs w) = False) \<and>
   (fst (snd (removeOldFiles d ccs w)) \<noteq> None \<longrightarrow> fst (removeOldFiles d ccs w) = False)"
proof (intro conjI impI)
  assume err: "fst (snd (writeNewFiles f d ccs w)) \<noteq> None"
  show "fst (writeNewFiles f d ccs w) = False"
  proof (cases "MkdirAll d w")
    case (Pair e w')
    show ?thesis
    proof (cases e)
      case None
      obtain ch e' w'' where r: "writeEach f d ccs False w' = (ch, e', w'')"
        by (cases "writeEach f d ccs False w'") auto
      with err Pair None obtain x where "e' = Some x"
        by (auto simp: writeNewFiles_def)
      with r have "\<not> ch" using writeEach_error_unchanged by blast
      with r Pair None show ?thesis by (simp add: writeNewFiles_def)
    next
      case (Some x)
      with Pair show ?thesis by (simp add: writeNewFiles_def)
    qed
  qed
next
  assume err: "fst (snd (removeOldFiles d ccs w)) \<noteq> None"
  show "fst (removeOldFiles d ccs w) = False"
  proof (cases "ReadDir w d")
    case (Inl e)
    then show ?thesis by (simp add: removeOldFiles_def)
  next
    case (Inr fs)
    obtain ch e' w'' where r: "removeEach d fs ccs False w = (ch, e', w'')"
      by (cases "removeEach d fs ccs False w") auto
    with err Inr obtain x where "e' = Some x"
      by (auto simp: removeOldFiles_def)
    with r have "\<not> ch" using removeEach_error_unchanged by blast
    with r Inr show ?thesis by (simp add: removeOldFiles_def)
  qed
qed

text \<open>
  In \<open>worldA\<close> the file \<open>a\<close> is written before reading \<open>b\<close> fails, and \<open>x\<close> is removed
  before removing \<open>y\<close> fails; both calls return \<open>false\<close> with the error.
\<close>

theorem changed_false_on_error_witness:
  "fst (snd (writeNewFiles writeNewHtpasswdFile nginxHtpasswdDir
       [endpoint ''a'' ''a.com'' [''u:h''], endpoint ''b'' ''b.com'' [''v:k'']] worldA)) = Some EACCES \<and>
   trace (snd (snd (writeNewFiles writeNewHtpasswdFile nginxHtpasswdDir
       [endpoint ''a'' ''a.com'' [''u:h''], endpoint ''b'' ''b.com'' [''v:k'']] worldA)))
     = [SysWrite (nginxHtpasswdDir, ''a'') ''u:h''] \<and>
   fst (writeNewFiles writeNewHtpasswdFile nginxHtpasswdDir
       [endpoint ''a'' ''a.com'' [''u:h''], endpoint ''b'' ''b.com'' [''v:k'']] worldA) = False \<and>
   fst (snd (removeOldFiles nginxHtpasswdDir [endpoint ''b'' ''b.com'' []] worldA)) = Some ENOTEMPTY \<and>
   trace (snd (snd (removeOldFiles nginxHtpasswdDir [endpoint ''b'' ''b.com'' []] worldA)))
     = [SysRemove (nginxHtpasswdDir, ''x''), SysRemove (nginxHtpasswdDir, ''y'')] \<and>
   fst (removeOldFiles nginxHtpasswdDir [endpoint ''b'' ''b.com'' []] worldA) = False"
  using changed_false_on_error [of writeNewHtpasswdFile nginxHtpasswdDir
      "[endpoint ''a'' ''a.com'' [''u:h''], endpoint ''b'' ''b.com'' [''v:k'']]" worldA]
    changed_false_on_error [of writeNewHtpasswdFile nginxHtpasswdDir
      "[endpoint ''b'' ''b.com'' []]" worldA]
  by (simp add: worldA_write worldA_remove)

end
